theory Spec2Isabelle
  imports Main "HOL-Library.Sublist"
begin

section \<open>Data model of StoryIndexGenerator.ts\<close>

text \<open>
  Paths, tags, identifiers and titles are JavaScript strings. A
  \<open>NormalizedStoriesSpecifier\<close> is only ever used as the key of the
  \<open>specifierToCache\<close> Map (compared by object identity) and as an argument
  handed on to external functions, so it is modelled by the identity of the object.
\<close>

type_synonym path = string
type_synonym tag = string
type_synonym specifier = nat

definition AUTODOCS_TAG :: tag where "AUTODOCS_TAG = ''autodocs''"
definition STORIES_MDX_TAG :: tag where "STORIES_MDX_TAG = ''stories-mdx''"

datatype entry_type = Story | Docs

text \<open>
  \<open>IndexEntry = StoryIndexEntry | DocsIndexEntry\<close>: one object shape with a
  \<open>type\<close> tag. \<open>tags\<close> is optional in the source (\<open>tags?.includes\<close>);
  \<open>storiesImports\<close> exists on docs entries only and is never read from a story
  entry, which carries \<open>[]\<close> here. The field \<open>id\<close> is called \<open>entry_id\<close>.
\<close>

record index_entry =
  entry_id :: string
  title :: string
  name :: string
  importPath :: path
  tags :: "tag list option"
  type :: entry_type
  storiesImports :: "path list"

text \<open>\<open>new IndexingError(message, importPaths, stack)\<close>; the stack is not modelled.\<close>

datatype indexing_error = IndexingError (err_message: string) (err_importPaths: "path list")

text \<open>\<open>options.docs.autodocs\<close> is \<open>boolean | 'tag'\<close>.\<close>

datatype autodocs_option = AutodocsTrue | AutodocsFalse | AutodocsTag

record options =
  storiesV2Compatibility :: bool
  storyStoreV7 :: bool
  autodocs :: autodocs_option
  defaultName :: string

text \<open>\<open>tags?.includes(t)\<close>: undefined (falsy) when there are no tags.\<close>

definition tags_include :: "tag list option \<Rightarrow> tag \<Rightarrow> bool" where
  "tags_include ts t = (case ts of None \<Rightarrow> False | Some l \<Rightarrow> t \<in> set l)"

definition isMdxEntry :: "index_entry \<Rightarrow> bool" where
  "isMdxEntry e \<longleftrightarrow>
     \<not> tags_include (tags e) AUTODOCS_TAG \<and> \<not> tags_include (tags e) STORIES_MDX_TAG"

section \<open>chooseDuplicate\<close>

text \<open>
  The three \<open>logger.warn\<close> calls of \<open>chooseDuplicate\<close>, each with the values it
  interpolates into its message:
  \<^item> \<open>StoryHidesDefaultDocs title name\<close>: "You have a story for title with the same
    name as your default docs entry name (name), so the docs page is being dropped."
  \<^item> \<open>StoryHidesDocs title worseDescriptor worseName\<close>: "You have a story for title
    with the same name as your worseDescriptor (worseName), so the docs page is being
    dropped."
  \<^item> \<open>TwoDocsPages title name\<close>: "You have two component docs pages with the same
    name title:name."
\<close>

datatype warning =
  StoryHidesDefaultDocs string string
| StoryHidesDocs string string string
| TwoDocsPages string string

text \<open>
  The result is the list of warnings logged, and either the thrown
  \<open>IndexingError\<close> (\<open>Inl\<close>) or the returned entry (\<open>Inr\<close>).
\<close>

definition chooseDuplicate ::
  "options \<Rightarrow> index_entry \<Rightarrow> index_entry \<Rightarrow> warning list \<times> (indexing_error + index_entry)" where
  "chooseDuplicate opts firstEntry secondEntry =
    (let firstIsBetter =
           (if type secondEntry = Story then False
            else if isMdxEntry secondEntry \<and> type firstEntry = Docs \<and> \<not> isMdxEntry firstEntry
              then False
            else True);
         betterEntry = (if firstIsBetter then firstEntry else secondEntry);
         worseEntry = (if firstIsBetter then secondEntry else firstEntry)
     in
       if type worseEntry = Story then
         ([], Inl (IndexingError (''Duplicate stories with id: '' @ entry_id firstEntry)
                     [importPath firstEntry, importPath secondEntry]))
       else if type betterEntry = Story then
         (let worseDescriptor =
                (if isMdxEntry worseEntry then ''component docs page''
                 else ''automatically generated docs page'')
          in if name betterEntry = defaultName opts
             then ([StoryHidesDefaultDocs (title betterEntry) (name betterEntry)], Inr betterEntry)
             else ([StoryHidesDocs (title betterEntry) worseDescriptor (name worseEntry)],
                   Inr betterEntry))
       else if isMdxEntry betterEntry then
         (let warned =
                (if isMdxEntry worseEntry
                 then [TwoDocsPages (title betterEntry) (name betterEntry)] else [])
          in if tags_include (tags worseEntry) AUTODOCS_TAG \<and> autodocs opts \<noteq> AutodocsTrue
             then (warned,
                   Inl (IndexingError
                     (''You created a component docs page for '' @ [CHR 0x27] @ title worseEntry
                        @ [CHR 0x27] @ '', but also tagged the CSF file with '' @ [CHR 0x27]
                        @ AUTODOCS_TAG @ [CHR 0x27] @ ''. This is probably a mistake.'')
                     [importPath betterEntry, importPath worseEntry]))
             else (warned, Inr betterEntry))
       else
         ([], Inr (betterEntry\<lparr>storiesImports :=
                     storiesImports betterEntry @ [importPath worseEntry]
                       @ storiesImports worseEntry\<rparr>)))"

text \<open>
  The precedence class that \<open>chooseDuplicate\<close> compares: a story entry, a docs entry
  written as an MDX file, a docs entry generated from a CSF file (a template).
\<close>

datatype entry_class = StoryClass | MdxDocsClass | TemplateDocsClass

definition entry_class_of :: "index_entry \<Rightarrow> entry_class" where
  "entry_class_of e =
     (if type e = Story then StoryClass
      else if isMdxEntry e then MdxDocsClass else TemplateDocsClass)"

text \<open>Two concrete template docs entries and two MDX docs entries with one identifier.\<close>

definition example_options :: options where
  "example_options = \<lparr>storiesV2Compatibility = False, storyStoreV7 = True,
     autodocs = AutodocsTrue, defaultName = ''Docs''\<rparr>"

definition template_docs_a :: index_entry where
  "template_docs_a = \<lparr>entry_id = ''button--docs'', title = ''Button'', name = ''Docs'',
     importPath = ''./a/Button.stories.js'', tags = Some [''autodocs'', ''docs''], type = Docs,
     storiesImports = []\<rparr>"

definition template_docs_b :: index_entry where
  "template_docs_b = \<lparr>entry_id = ''button--docs'', title = ''Button'', name = ''Docs'',
     importPath = ''./b/Button.stories.js'', tags = Some [''autodocs'', ''docs''], type = Docs,
     storiesImports = []\<rparr>"

definition story_a :: index_entry where
  "story_a = \<lparr>entry_id = ''button--primary'', title = ''Button'', name = ''Primary'',
     importPath = ''./a/Button.stories.js'', tags = Some [''story''], type = Story,
     storiesImports = []\<rparr>"

definition story_b :: index_entry where
  "story_b = \<lparr>entry_id = ''button--primary'', title = ''Button'', name = ''Primary'',
     importPath = ''./b/Button.stories.js'', tags = Some [''story''], type = Story,
     storiesImports = []\<rparr>"

definition docs_named_story :: index_entry where
  "docs_named_story = \<lparr>entry_id = ''button--docs'', title = ''Button'', name = ''Docs'',
     importPath = ''./a/Button.stories.js'', tags = Some [''story''], type = Story,
     storiesImports = []\<rparr>"

definition mdx_docs_a :: index_entry where
  "mdx_docs_a = \<lparr>entry_id = ''button--docs'', title = ''Button'', name = ''Docs'',
     importPath = ''./a/Button.mdx'', tags = Some [''docs''], type = Docs,
     storiesImports = [''./a/Button.stories.js'']\<rparr>"

definition mdx_docs_b :: index_entry where
  "mdx_docs_b = \<lparr>entry_id = ''button--docs'', title = ''Button'', name = ''Docs'',
     importPath = ''./b/Button.mdx'', tags = Some [''docs''], type = Docs,
     storiesImports = [''./b/Button.stories.js'']\<rparr>"

section \<open>JavaScript values\<close>

text \<open>
  A plain object used as a dictionary, and a \<open>Map\<close>: the list of its key/value pairs
  in insertion order, which is the order of \<open>Object.keys\<close> (the keys here are file
  paths and identifiers, never integer-like) and of \<open>Map.forEach\<close>. Keys are
  distinct; assigning to an existing key keeps its place.
\<close>

type_synonym ('k, 'v) dict = "('k \<times> 'v) list"

fun dict_set :: "('k, 'v) dict \<Rightarrow> 'k \<Rightarrow> 'v \<Rightarrow> ('k, 'v) dict" where
  "dict_set [] k v = [(k, v)]"
| "dict_set ((k', v') # rest) k v =
     (if k' = k then (k, v) # rest else (k', v') # dict_set rest k v)"

definition dict_delete :: "('k, 'v) dict \<Rightarrow> 'k \<Rightarrow> ('k, 'v) dict" where
  "dict_delete d k = filter (\<lambda>kv. fst kv \<noteq> k) d"

text \<open>An optional string is truthy when it is present and not empty.\<close>

definition truthy_string :: "string option \<Rightarrow> bool" where
  "truthy_string s = (case s of None \<Rightarrow> False | Some x \<Rightarrow> x \<noteq> [])"

text \<open>
  What extraction can throw: \<open>new Error(message)\<close>, or a \<open>TypeError\<close> of the
  runtime (a property read from \<open>undefined\<close>). External functions throw values of
  the same type.
\<close>

datatype js_error = Error string | TypeError string

fun message :: "js_error \<Rightarrow> string" where
  "message (Error m) = m"
| "message (TypeError m) = m"

text \<open>What \<open>getIndex\<close> can throw.\<close>

datatype index_error = Thrown js_error | MultipleIndexingError "indexing_error list"

section \<open>The cache\<close>

text \<open>
  \<open>CacheEntry = false | StoriesCacheEntry | DocsCacheEntry | ErrorEntry\<close>;
  \<open>Unprocessed\<close> is the value \<open>false\<close>.
\<close>

datatype cache_entry =
  Unprocessed
| StoriesCacheEntry "index_entry list" "path list"
| DocsCacheEntry index_entry
| ErrorEntry indexing_error

text \<open>Truthiness of \<open>cache[path]\<close>: \<open>undefined\<close> and \<open>false\<close> are falsy.\<close>

fun truthy_entry :: "cache_entry option \<Rightarrow> bool" where
  "truthy_entry None = False"
| "truthy_entry (Some Unprocessed) = False"
| "truthy_entry (Some _) = True"

text \<open>The template literal \<open>${cacheEntry}\<close>.\<close>

fun to_string :: "cache_entry \<Rightarrow> string" where
  "to_string Unprocessed = ''false''"
| "to_string _ = ''[object Object]''"

type_synonym specifier_cache = "(path, cache_entry) dict"

section \<open>External collaborators\<close>

text \<open>
  What a story indexer returns for a file (\<open>csf.meta\<close> and \<open>csf.stories\<close>);
  \<open>docsOnly\<close> is the truthiness of \<open>parameters?.docsOnly\<close>.
\<close>

record csf_story =
  story_id :: string
  story_name :: string
  story_tags :: "tag list option"
  docsOnly :: bool

record csf_file =
  meta_title :: string
  meta_tags :: "tag list option"
  stories :: "csf_story list"

text \<open>
  An element of \<open>options.storyIndexers\<close>: \<open>test\<close> says whether
  \<open>indexer.test.exec(absolutePath)\<close> matches; \<open>indexer\<close> is the call
  \<open>indexer(absolutePath, {makeTitle})\<close>, where \<open>makeTitle\<close> closes over the
  specifier.
\<close>

record story_indexer =
  test :: "path \<Rightarrow> bool"
  indexer :: "path \<Rightarrow> specifier \<Rightarrow> js_error + csf_file"

text \<open>The result of \<open>analyze(content)\<close> for a docs file.\<close>

record mdx_analysis =
  result_title :: "string option"
  result_of :: "path option"
  result_name :: "string option"
  isTemplate :: bool
  result_imports :: "path list"
  result_tags :: "tag list option"

text \<open>
  The constructor arguments (\<open>specifiers\<close>, \<open>options\<close>) and the functions the
  class imports. The path functions have \<open>options.workingDir\<close> built in:
  \<open>path_relative p\<close> is \<open>path.relative(workingDir, p)\<close>, \<open>path_resolve p\<close> is
  \<open>path.resolve(workingDir, p)\<close>, \<open>path_join_dirname a b\<close> is
  \<open>path.join(path.dirname(a), b)\<close>. \<open>readAndAnalyze p\<close> is
  \<open>analyze(await fs.readFile(p, 'utf8'))\<close>. \<open>glob_sorted s\<close> is the sorted result
  of \<open>glob\<close> for the specifier. \<open>sortStoriesV7\<close> stands for reading the sort
  parameter of the preview file and sorting with it. An external function that throws
  returns \<open>Inl\<close>.
\<close>

record env =
  specifiers :: "specifier list"
  options :: options
  storyIndexers :: "story_indexer list"
  readAndAnalyze :: "path \<Rightarrow> js_error + mdx_analysis"
  glob_sorted :: "specifier \<Rightarrow> path list"
  path_extname :: "path \<Rightarrow> string"
  path_relative :: "path \<Rightarrow> path"
  path_resolve :: "path \<Rightarrow> path"
  path_normalize :: "path \<Rightarrow> path"
  path_join_dirname :: "path \<Rightarrow> path \<Rightarrow> path"
  path_sep :: string
  normalizeStoryPath :: "path \<Rightarrow> path"
  slash :: "path \<Rightarrow> path"
  userOrAutoTitleFromSpecifier :: "path \<Rightarrow> specifier \<Rightarrow> string option \<Rightarrow> string"
  autoName :: "path \<Rightarrow> path \<Rightarrow> string \<Rightarrow> string"
  toId :: "string \<Rightarrow> string \<Rightarrow> js_error + string"
  sortStoriesV7 :: "index_entry list \<Rightarrow> path list \<Rightarrow> js_error + index_entry list"

section \<open>The generator\<close>

text \<open>
  The legacy shape of an entry: the story entry with \<open>kind\<close>, \<open>story\<close> and
  \<open>parameters = {__id, docsOnly, fileName}\<close> added.
\<close>

record v2_parameters =
  param_id :: string
  param_docsOnly :: bool
  param_fileName :: path

datatype output_entry =
  IndexEntry index_entry
| V2CompatIndexEntry index_entry string string v2_parameters

text \<open>\<open>StoryIndex = {v, entries}\<close>.\<close>

record story_index =
  index_version :: nat
  index_entries :: "(string, output_entry) dict"

text \<open>
  A call that leaves the generator: a story indexer invoked on a file, or a docs file
  read and analyzed.
\<close>

datatype extractor_call = IndexerCall path | ReadFileCall path

text \<open>
  The mutable fields of the class. \<open>extractor_calls\<close> is not a field of the source:
  it records, in order, every extractor invocation made so far, so that "no extractor
  runs" can be stated.
\<close>

record generator =
  specifierToCache :: "(specifier, specifier_cache) dict"
  lastIndex :: "story_index option"
  lastError :: "index_error option"
  extractor_calls :: "extractor_call list"

definition new_generator :: generator where
  "new_generator = \<lparr>specifierToCache = [], lastIndex = None, lastError = None,
     extractor_calls = []\<rparr>"

text \<open>\<open>specifierToCache.get(s)[p]\<close>, and the assignment to it.\<close>

definition slot_get :: "generator \<Rightarrow> specifier \<Rightarrow> path \<Rightarrow> cache_entry option" where
  "slot_get g s p = (case map_of (specifierToCache g) s of None \<Rightarrow> None | Some c \<Rightarrow> map_of c p)"

definition slot_set :: "generator \<Rightarrow> specifier \<Rightarrow> path \<Rightarrow> cache_entry \<Rightarrow> generator" where
  "slot_set g s p e =
     g\<lparr>specifierToCache :=
         map (\<lambda>sc. if fst sc = s then (fst sc, dict_set (snd sc) p e) else sc)
           (specifierToCache g)\<rparr>"

definition slot_delete :: "generator \<Rightarrow> specifier \<Rightarrow> path \<Rightarrow> generator" where
  "slot_delete g s p =
     g\<lparr>specifierToCache :=
         map (\<lambda>sc. if fst sc = s then (fst sc, dict_delete (snd sc) p) else sc)
           (specifierToCache g)\<rparr>"

section \<open>updateExtracted\<close>

text \<open>
  An updater is run on one path of one specifier; it returns the new cache entry or
  throws, and may change the generator (\<open>extractDocs\<close> pushes onto \<open>dependents\<close>).
  The \<open>Promise.all\<close> sweeps are modelled as one task after the other, in the order of
  \<open>specifiers\<close> and \<open>Object.keys\<close>: every task writes only its own slot, and
  appends only to \<open>dependents\<close> lists of slots that stay truthy. The third argument
  of an updater, the existing entry, is read by neither updater and is left out.
\<close>

type_synonym updater = "specifier \<Rightarrow> path \<Rightarrow> generator \<Rightarrow> (js_error + cache_entry) \<times> generator"

definition updatePath :: "env \<Rightarrow> updater \<Rightarrow> bool \<Rightarrow> specifier \<Rightarrow> path \<Rightarrow> generator \<Rightarrow> generator" where
  "updatePath env upd overwrite s absolutePath g =
     (if truthy_entry (slot_get g s absolutePath) \<and> \<not> overwrite then g
      else case upd s absolutePath g of
             (Inr e, g') \<Rightarrow> slot_set g' s absolutePath e
           | (Inl err, g') \<Rightarrow>
               (let relativePath = ''.'' @ path_sep env @ path_relative env absolutePath
                in slot_set g' s absolutePath
                     (ErrorEntry (IndexingError (message err) [relativePath]))))"

text \<open>
  One specifier of the sweep. A specifier without a cache (\<open>get\<close> returns
  \<open>undefined\<close>) makes \<open>Object.keys\<close> throw, which rejects the sweep; the tasks of the
  other specifiers still run.
\<close>

definition updateSpecifier ::
  "env \<Rightarrow> updater \<Rightarrow> bool \<Rightarrow> specifier \<Rightarrow> (js_error + unit) \<times> generator
     \<Rightarrow> (js_error + unit) \<times> generator" where
  "updateSpecifier env upd overwrite s rg =
     (case map_of (specifierToCache (snd rg)) s of
        None \<Rightarrow>
          (case fst rg of
             Inl e \<Rightarrow> rg
           | Inr u \<Rightarrow> (Inl (TypeError ''Cannot convert undefined or null to object''), snd rg))
      | Some c \<Rightarrow> (fst rg, fold (updatePath env upd overwrite s) (map fst c) (snd rg)))"

definition updateExtracted ::
  "env \<Rightarrow> updater \<Rightarrow> bool \<Rightarrow> generator \<Rightarrow> (js_error + unit) \<times> generator" where
  "updateExtracted env upd overwrite g =
     fold (updateSpecifier env upd overwrite) (specifiers env) (Inr (), g)"

text \<open>\<open>/(?<!\.stories)\.mdx$/i.test(absolutePath)\<close>\<close>

definition to_lower :: "char \<Rightarrow> char" where
  "to_lower c = (let n = (of_char c :: nat) in if 65 \<le> n \<and> n \<le> 90 then char_of (n + 32) else c)"

definition isDocsMdx :: "path \<Rightarrow> bool" where
  "isDocsMdx absolutePath =
     (let l = map to_lower absolutePath in suffix ''.mdx'' l \<and> \<not> suffix ''.stories.mdx'' l)"

section \<open>extractStories\<close>

definition story_entry :: "csf_file \<Rightarrow> path \<Rightarrow> tag list \<Rightarrow> csf_story \<Rightarrow> index_entry" where
  "story_entry csf ip componentTags st =
     \<lparr>entry_id = story_id st, title = meta_title csf, name = story_name st, importPath = ip,
      tags = Some ((case story_tags st of None \<Rightarrow> componentTags | Some ts \<Rightarrow> ts) @ [''story'']),
      type = Story, storiesImports = []\<rparr>"

definition autodocsOptedIn :: "options \<Rightarrow> tag list \<Rightarrow> bool" where
  "autodocsOptedIn opts componentTags \<longleftrightarrow>
     autodocs opts = AutodocsTrue
     \<or> (autodocs opts = AutodocsTag \<and> AUTODOCS_TAG \<in> set componentTags)"

definition extractStories :: "env \<Rightarrow> updater" where
  "extractStories env s absolutePath g =
     (let relativePath = path_relative env absolutePath;
          ip = slash env (normalizeStoryPath env relativePath)
      in case find (\<lambda>i. test i absolutePath) (storyIndexers env) of
           None \<Rightarrow> (Inl (Error (''No matching story indexer found for '' @ absolutePath)), g)
         | Some storyIndexer \<Rightarrow>
             (let g' = g\<lparr>extractor_calls := extractor_calls g @ [IndexerCall absolutePath]\<rparr>
              in case indexer storyIndexer absolutePath s of
                   Inl err \<Rightarrow> (Inl err, g')
                 | Inr csf \<Rightarrow>
                     (let componentTags = (case meta_tags csf of None \<Rightarrow> [] | Some ts \<Rightarrow> ts);
                          es = map (story_entry csf ip componentTags)
                                 (filter (\<lambda>st. \<not> docsOnly st) (stories csf))
                      in if stories csf \<noteq> []
                            \<and> (STORIES_MDX_TAG \<in> set componentTags
                                 \<or> autodocsOptedIn (options env) componentTags)
                         then
                           (let nm = defaultName (options env)
                            in case toId env (meta_title csf) nm of
                                 Inl err \<Rightarrow> (Inl err, g')
                               | Inr i \<Rightarrow>
                                   (Inr (StoriesCacheEntry
                                      (\<lparr>entry_id = i, title = meta_title csf, name = nm,
                                        importPath = ip,
                                        tags = Some (componentTags @ [''docs'']
                                          @ (if autodocsOptedIn (options env) componentTags
                                                \<and> AUTODOCS_TAG \<notin> set componentTags
                                             then [AUTODOCS_TAG] else [])),
                                        type = Docs, storiesImports = []\<rparr> # es) []), g'))
                         else (Inr (StoriesCacheEntry es []), g'))))"

text \<open>
  The component tags of a file (\<open>csf.meta.tags || []\<close>) and the condition under
  which \<open>extractStories\<close> adds a docs entry, named for the statements below.
\<close>

definition component_tags :: "csf_file \<Rightarrow> tag list" where
  "component_tags csf = (case meta_tags csf of None \<Rightarrow> [] | Some ts \<Rightarrow> ts)"

definition wants_docs :: "env \<Rightarrow> csf_file \<Rightarrow> bool" where
  "wants_docs env csf \<longleftrightarrow>
     stories csf \<noteq> []
     \<and> (STORIES_MDX_TAG \<in> set (component_tags csf)
          \<or> autodocsOptedIn (options env) (component_tags csf))"

section \<open>findDependencies\<close>

text \<open>
  The filter predicate: \<open>absoluteImports.find\<close> returns the first import that the
  file name starts with, and the file is kept when that import is truthy.
\<close>

definition import_found :: "path list \<Rightarrow> path \<Rightarrow> bool" where
  "import_found absoluteImports fileName =
     (case find (\<lambda>storyImport. prefix storyImport fileName) absoluteImports of
        None \<Rightarrow> False
      | Some foundImport \<Rightarrow> foundImport \<noteq> [])"

text \<open>
  A dependency is a reference to a \<open>StoriesCacheEntry\<close> object of the cache: the slot
  it lives in, with its \<open>entries\<close> and \<open>dependents\<close> as they are at the call.
\<close>

type_synonym dependency = "(specifier \<times> path) \<times> index_entry list \<times> path list"

text \<open>The \<open>fileNames.forEach\<close> of one cache: it throws at the first entry that is not a
  \<open>StoriesCacheEntry\<close>.\<close>

fun collect_dependencies :: "specifier \<Rightarrow> specifier_cache \<Rightarrow> js_error + dependency list" where
  "collect_dependencies s [] = Inr []"
| "collect_dependencies s ((fileName, StoriesCacheEntry es ds) # rest) =
     (case collect_dependencies s rest of
        Inl err \<Rightarrow> Inl err
      | Inr deps \<Rightarrow> Inr (((s, fileName), es, ds) # deps))"
| "collect_dependencies s ((fileName, cacheEntry) # rest) =
     Inl (Error (''Unexpected dependency: '' @ to_string cacheEntry))"

fun findDependencies_in ::
  "path list \<Rightarrow> (specifier, specifier_cache) dict \<Rightarrow> js_error + dependency list" where
  "findDependencies_in absoluteImports [] = Inr []"
| "findDependencies_in absoluteImports ((s, c) # rest) =
     (case collect_dependencies s (filter (\<lambda>kv. import_found absoluteImports (fst kv)) c) of
        Inl err \<Rightarrow> Inl err
      | Inr deps \<Rightarrow>
          (case findDependencies_in absoluteImports rest of
             Inl err \<Rightarrow> Inl err
           | Inr deps' \<Rightarrow> Inr (deps @ deps')))"

definition findDependencies :: "generator \<Rightarrow> path list \<Rightarrow> js_error + dependency list" where
  "findDependencies g absoluteImports = findDependencies_in absoluteImports (specifierToCache g)"

text \<open>
  The selection that \<open>findDependencies\<close> makes, named for the statements below: a
  cached path matches when some import is a string prefix of it
  (\<open>fileName.startsWith(storyImport)\<close>), and \<open>matched_slots\<close> lists the cache
  entries of the matching paths, cache by cache.
\<close>

definition matches_import :: "path list \<Rightarrow> path \<Rightarrow> bool" where
  "matches_import absoluteImports fileName \<longleftrightarrow>
     (\<exists>storyImport \<in> set absoluteImports. prefix storyImport fileName)"

definition matched_in :: "path list \<Rightarrow> specifier \<Rightarrow> specifier_cache
    \<Rightarrow> ((specifier \<times> path) \<times> cache_entry) list" where
  "matched_in absoluteImports s c =
     map (\<lambda>kv. ((s, fst kv), snd kv)) (filter (\<lambda>kv. matches_import absoluteImports (fst kv)) c)"

definition matched_slots :: "generator \<Rightarrow> path list \<Rightarrow> ((specifier \<times> path) \<times> cache_entry) list" where
  "matched_slots g absoluteImports =
     concat (map (\<lambda>sc. matched_in absoluteImports (fst sc) (snd sc)) (specifierToCache g))"

text \<open>
  The selection in the words of the specification ("paths that are string-prefixes of
  any import", "whose path is a prefix of one of those imports"): a cached path is
  selected when it is a string prefix of some import. \<open>spec_selected_slots\<close> lists
  the cache entries of the paths selected in that sense.
\<close>

definition path_prefixes_import :: "path list \<Rightarrow> path \<Rightarrow> bool" where
  "path_prefixes_import absoluteImports fileName \<longleftrightarrow>
     (\<exists>storyImport \<in> set absoluteImports. prefix fileName storyImport)"

definition spec_selected_slots ::
  "generator \<Rightarrow> path list \<Rightarrow> ((specifier \<times> path) \<times> cache_entry) list" where
  "spec_selected_slots g absoluteImports =
     concat (map (\<lambda>sc. map (\<lambda>kv. ((fst sc, fst kv), snd kv))
                          (filter (\<lambda>kv. path_prefixes_import absoluteImports (fst kv)) (snd sc)))
               (specifierToCache g))"

fun is_stories :: "cache_entry \<Rightarrow> bool" where
  "is_stories (StoriesCacheEntry es ds) = True"
| "is_stories _ = False"

text \<open>The cache entry a dependency refers to, with its slot.\<close>

definition dependency_entry :: "dependency \<Rightarrow> (specifier \<times> path) \<times> cache_entry" where
  "dependency_entry dep = (fst dep, StoriesCacheEntry (fst (snd dep)) (snd (snd dep)))"

section \<open>extractDocs\<close>

definition makeAbsolute :: "env \<Rightarrow> path \<Rightarrow> path \<Rightarrow> path" where
  "makeAbsolute env otherImport normalizedPath =
     (if prefix ''.'' otherImport
      then slash env (path_resolve env
             (normalizeStoryPath env (path_join_dirname env normalizedPath otherImport)))
      else otherImport)"

text \<open>
  The \<open>dependencies.forEach\<close> that looks for the CSF file named by \<open>of\<close>: the last
  dependency whose first non-docs entry resolves to a path starting with
  \<open>absoluteOf\<close> wins; a non-empty dependency without a non-docs entry makes
  \<open>first.importPath\<close> throw.
\<close>

fun find_csfEntry ::
  "env \<Rightarrow> path \<Rightarrow> index_entry option \<Rightarrow> dependency list \<Rightarrow> js_error + index_entry option" where
  "find_csfEntry env absoluteOf csfEntry [] = Inr csfEntry"
| "find_csfEntry env absoluteOf csfEntry ((sl, es, ds) # rest) =
     (if es \<noteq> [] then
        (case find (\<lambda>e. type e \<noteq> Docs) es of
           None \<Rightarrow> Inl (TypeError ''Cannot read properties of undefined (reading importPath)'')
         | Some first \<Rightarrow>
             if prefix (path_normalize env absoluteOf)
                  (path_normalize env (path_resolve env (importPath first)))
             then find_csfEntry env absoluteOf (Some first) rest
             else find_csfEntry env absoluteOf csfEntry rest)
      else find_csfEntry env absoluteOf csfEntry rest)"

text \<open>
  The \<open>if (result.of)\<close> block. The message of the error is the first line of the
  source's message.
\<close>

definition resolve_of ::
  "env \<Rightarrow> mdx_analysis \<Rightarrow> path \<Rightarrow> path \<Rightarrow> dependency list \<Rightarrow> js_error + index_entry option" where
  "resolve_of env result relativePath normalizedPath dependencies =
     (case result_of result of
        None \<Rightarrow> Inr None
      | Some ofPath \<Rightarrow>
          if ofPath = [] then Inr None
          else
            (case find_csfEntry env (makeAbsolute env ofPath normalizedPath) None dependencies of
               Inl err \<Rightarrow> Inl err
             | Inr None \<Rightarrow>
                 Inl (Error (''Could not find CSF file at path '' @ [CHR 0x22] @ ofPath
                        @ [CHR 0x22] @ '' referenced by `of={}` in docs file ''
                        @ [CHR 0x22] @ relativePath @ [CHR 0x22] @ ''.''))
             | Inr (Some e) \<Rightarrow> Inr (Some e)))"

text \<open>\<open>dep.dependents.push(absolutePath)\<close> on the entry object the dependency refers to.\<close>

definition push_dependent :: "path \<Rightarrow> dependency \<Rightarrow> generator \<Rightarrow> generator" where
  "push_dependent absolutePath dep g =
     (case slot_get g (fst (fst dep)) (snd (fst dep)) of
        Some (StoriesCacheEntry es ds) \<Rightarrow>
          slot_set g (fst (fst dep)) (snd (fst dep)) (StoriesCacheEntry es (ds @ [absolutePath]))
      | _ \<Rightarrow> g)"

text \<open>\<open>dependencies.map((dep) => dep.entries[0].importPath)\<close>\<close>

fun first_importPaths :: "dependency list \<Rightarrow> js_error + path list" where
  "first_importPaths [] = Inr []"
| "first_importPaths ((sl, [], ds) # rest) =
     Inl (TypeError ''Cannot read properties of undefined (reading importPath)'')"
| "first_importPaths ((sl, e # es, ds) # rest) =
     (case first_importPaths rest of
        Inl err \<Rightarrow> Inl err
      | Inr ps \<Rightarrow> Inr (importPath e # ps))"

definition docs_title :: "env \<Rightarrow> specifier \<Rightarrow> path \<Rightarrow> mdx_analysis \<Rightarrow> index_entry option \<Rightarrow> string" where
  "docs_title env s ip result csfEntry =
     (case csfEntry of
        None \<Rightarrow> userOrAutoTitleFromSpecifier env ip s (result_title result)
      | Some e \<Rightarrow>
          if title e \<noteq> [] then title e
          else userOrAutoTitleFromSpecifier env ip s (result_title result))"

definition docs_name :: "env \<Rightarrow> path \<Rightarrow> mdx_analysis \<Rightarrow> index_entry option \<Rightarrow> string" where
  "docs_name env ip result csfEntry =
     (case result_name result of
        Some n \<Rightarrow>
          if n \<noteq> [] then n
          else (case csfEntry of
                  None \<Rightarrow> defaultName (options env)
                | Some e \<Rightarrow> autoName env ip (importPath e) (defaultName (options env)))
      | None \<Rightarrow>
          (case csfEntry of
             None \<Rightarrow> defaultName (options env)
           | Some e \<Rightarrow> autoName env ip (importPath e) (defaultName (options env))))"

definition storyStoreV7_message :: string where
  "storyStoreV7_message = ''You cannot use `.mdx` files without using `storyStoreV7`.''"

text \<open>
  The part of \<open>extractDocs\<close> after the \<open>of\<close> block: the dependents are
  recorded first, then the identifier and the entry are built. The \<open>catch\<close> block
  of \<open>extractDocs\<close> logs a hint for one kind of syntax error and throws the error
  again; the log is not part of the state modelled here.
\<close>

definition finish_docs ::
  "env \<Rightarrow> specifier \<Rightarrow> path \<Rightarrow> path \<Rightarrow> mdx_analysis \<Rightarrow> dependency list
     \<Rightarrow> index_entry option \<Rightarrow> generator \<Rightarrow> (js_error + cache_entry) \<times> generator" where
  "finish_docs env s absolutePath ip result dependencies csfEntry g1 =
     (let g2 = fold (push_dependent absolutePath) dependencies g1;
          t = docs_title env s ip result csfEntry;
          nm = docs_name env ip result csfEntry
      in case toId env t nm of
           Inl err \<Rightarrow> (Inl err, g2)
         | Inr i \<Rightarrow>
             (case first_importPaths dependencies of
                Inl err \<Rightarrow> (Inl err, g2)
              | Inr imps \<Rightarrow>
                  (Inr (DocsCacheEntry
                     \<lparr>entry_id = i, title = t, name = nm, importPath = ip,
                      tags = Some ((case result_tags result of None \<Rightarrow> [] | Some ts \<Rightarrow> ts)
                                    @ [''docs'']),
                      type = Docs, storiesImports = imps\<rparr>), g2)))"

definition extractDocs :: "env \<Rightarrow> updater" where
  "extractDocs env s absolutePath g =
     (let relativePath = path_relative env absolutePath
      in if \<not> storyStoreV7 (options env) then (Inl (Error storyStoreV7_message), g)
         else
           (let normalizedPath = normalizeStoryPath env relativePath;
                ip = slash env normalizedPath;
                g1 = g\<lparr>extractor_calls := extractor_calls g @ [ReadFileCall absolutePath]\<rparr>
            in case readAndAnalyze env absolutePath of
                 Inl err \<Rightarrow> (Inl err, g1)
               | Inr result \<Rightarrow>
                   if isTemplate result then (Inr Unprocessed, g1)
                   else
                     (let absoluteImports =
                            map (\<lambda>p. makeAbsolute env p normalizedPath) (result_imports result)
                      in case findDependencies g1 absoluteImports of
                           Inl err \<Rightarrow> (Inl err, g1)
                         | Inr dependencies \<Rightarrow>
                             (case resolve_of env result relativePath normalizedPath
                                     dependencies of
                                Inl err \<Rightarrow> (Inl err, g1)
                              | Inr csfEntry \<Rightarrow>
                                  finish_docs env s absolutePath ip result dependencies
                                    csfEntry g1))))"

section \<open>ensureExtracted\<close>

fun flatten_entry :: "cache_entry \<Rightarrow> (indexing_error + index_entry) list" where
  "flatten_entry Unprocessed = []"
| "flatten_entry (DocsCacheEntry e) = [Inr e]"
| "flatten_entry (ErrorEntry err) = [Inl err]"
| "flatten_entry (StoriesCacheEntry es ds) = map Inr es"

text \<open>The final \<open>flatMap\<close>; \<open>Object.values\<close> of a missing cache throws.\<close>

fun flatten_caches ::
  "generator \<Rightarrow> specifier list \<Rightarrow> js_error + (indexing_error + index_entry) list" where
  "flatten_caches g [] = Inr []"
| "flatten_caches g (s # rest) =
     (case map_of (specifierToCache g) s of
        None \<Rightarrow> Inl (TypeError ''Cannot convert undefined or null to object'')
      | Some c \<Rightarrow>
          (case flatten_caches g rest of
             Inl err \<Rightarrow> Inl err
           | Inr l \<Rightarrow> Inr (concat (map (\<lambda>kv. flatten_entry (snd kv)) c) @ l)))"

definition stories_updater :: "env \<Rightarrow> updater" where
  "stories_updater env s absolutePath g =
     (if isDocsMdx absolutePath then (Inr Unprocessed, g)
      else extractStories env s absolutePath g)"

definition ensureExtracted ::
  "env \<Rightarrow> generator \<Rightarrow> (js_error + (indexing_error + index_entry) list) \<times> generator" where
  "ensureExtracted env g =
     (case updateExtracted env (stories_updater env) False g of
        (Inl err, g1) \<Rightarrow> (Inl err, g1)
      | (Inr u, g1) \<Rightarrow>
          (case updateExtracted env (extractDocs env) False g1 of
             (Inl err, g2) \<Rightarrow> (Inl err, g2)
           | (Inr u', g2) \<Rightarrow>
               (case flatten_caches g2 (specifiers env) of
                  Inl err \<Rightarrow> (Inl err, g2)
                | Inr l \<Rightarrow> (Inr l, g2))))"

section \<open>getIndex\<close>

fun error_entries :: "(indexing_error + index_entry) list \<Rightarrow> indexing_error list" where
  "error_entries [] = []"
| "error_entries (Inl err # rest) = err # error_entries rest"
| "error_entries (Inr e # rest) = error_entries rest"

fun index_entries_of :: "(indexing_error + index_entry) list \<Rightarrow> index_entry list" where
  "index_entries_of [] = []"
| "index_entries_of (Inl err # rest) = index_entries_of rest"
| "index_entries_of (Inr e # rest) = e # index_entries_of rest"

text \<open>
  One round of the \<open>forEach\<close> over the entries: the state is \<open>indexEntries\<close> and
  \<open>duplicateErrors\<close>; an error thrown by \<open>chooseDuplicate\<close> is pushed and the loop
  goes on.
\<close>

definition add_entry ::
  "options \<Rightarrow> (string, index_entry) dict \<times> indexing_error list \<Rightarrow> index_entry
     \<Rightarrow> (string, index_entry) dict \<times> indexing_error list" where
  "add_entry opts acc entry =
     (case map_of (fst acc) (entry_id entry) of
        Some existing \<Rightarrow>
          (case snd (chooseDuplicate opts existing entry) of
             Inl err \<Rightarrow> (fst acc, snd acc @ [err])
           | Inr chosen \<Rightarrow> (dict_set (fst acc) (entry_id entry) chosen, snd acc))
      | None \<Rightarrow> (dict_set (fst acc) (entry_id entry) entry, snd acc))"

definition resolve_duplicates ::
  "options \<Rightarrow> index_entry list \<Rightarrow> (string, index_entry) dict \<times> indexing_error list" where
  "resolve_duplicates opts es = foldl (add_entry opts) ([], []) es"

text \<open>The story file names in "imported order".\<close>

definition storyFileNames :: "generator \<Rightarrow> path list" where
  "storyFileNames g = concat (map (\<lambda>sc. map fst (snd sc)) (specifierToCache g))"

definition sortStories ::
  "env \<Rightarrow> generator \<Rightarrow> (string, index_entry) dict \<Rightarrow> js_error + (string, index_entry) dict" where
  "sortStories env g es =
     (let sortableStories = map snd es
      in case (if storyStoreV7 (options env)
               then sortStoriesV7 env sortableStories (storyFileNames g)
               else Inr sortableStories) of
           Inl err \<Rightarrow> Inl err
         | Inr sortedEntries \<Rightarrow> Inr (foldl (\<lambda>acc item. dict_set acc (entry_id item) item) [] sortedEntries))"

definition titleToStoryCount :: "(string, index_entry) dict \<Rightarrow> string \<Rightarrow> nat" where
  "titleToStoryCount sortedEntries t = length (filter (\<lambda>kv. title (snd kv) = t) sortedEntries)"

definition v2_compat :: "(string, index_entry) dict \<Rightarrow> (string, output_entry) dict" where
  "v2_compat sortedEntries =
     foldl (\<lambda>acc kv.
        if type (snd kv) = Docs then acc
        else dict_set acc (fst kv)
               (V2CompatIndexEntry (snd kv) (title (snd kv)) (name (snd kv))
                  \<lparr>param_id = entry_id (snd kv),
                   param_docsOnly = (titleToStoryCount sortedEntries (title (snd kv)) = 1
                                      \<and> name (snd kv) = ''Page''),
                   param_fileName = importPath (snd kv)\<rparr>))
       [] sortedEntries"

text \<open>The \<open>try\<close> block of \<open>getIndex\<close>, up to the value assigned to \<open>lastIndex\<close>.\<close>

definition build_index ::
  "env \<Rightarrow> generator \<Rightarrow> (indexing_error + index_entry) list \<Rightarrow> index_error + story_index" where
  "build_index env g storiesList =
     (let errorEntries = error_entries storiesList
      in if errorEntries \<noteq> [] then Inl (MultipleIndexingError errorEntries)
         else
           (let resolved = resolve_duplicates (options env) (index_entries_of storiesList)
            in if snd resolved \<noteq> [] then Inl (MultipleIndexingError (snd resolved))
               else
                 (case sortStories env g (fst resolved) of
                    Inl err \<Rightarrow> Inl (Thrown err)
                  | Inr sortedEntries \<Rightarrow>
                      Inr \<lparr>index_version = 4,
                           index_entries =
                             (if storiesV2Compatibility (options env) then v2_compat sortedEntries
                              else map (\<lambda>kv. (fst kv, IndexEntry (snd kv))) sortedEntries)\<rparr>)))"

text \<open>
  \<open>ensureExtracted\<close> is awaited outside the \<open>try\<close>: if it rejects, nothing is
  memoized. The warnings of \<open>chooseDuplicate\<close> and the warning logged in the
  \<open>catch\<close> block go to the logger and are dropped here.
\<close>

definition getIndex :: "env \<Rightarrow> generator \<Rightarrow> (index_error + story_index) \<times> generator" where
  "getIndex env g =
     (case lastIndex g of
        Some idx \<Rightarrow> (Inr idx, g)
      | None \<Rightarrow>
          (case lastError g of
             Some err \<Rightarrow> (Inl err, g)
           | None \<Rightarrow>
               (case ensureExtracted env g of
                  (Inl err, g') \<Rightarrow> (Inl (Thrown err), g')
                | (Inr storiesList, g') \<Rightarrow>
                    (case build_index env g' storiesList of
                       Inr idx \<Rightarrow> (Inr idx, g'\<lparr>lastIndex := Some idx\<rparr>)
                     | Inl err \<Rightarrow> (Inl err, g'\<lparr>lastError := Some err\<rparr>)))))"

text \<open>
  Names for the statements about \<open>getIndex\<close>: the errors of the \<open>ErrorEntry\<close>
  cache entries, specifier by specifier and in key order; the duplicate errors collected
  by the loop; and the error, if any, that one entry raises against the index built from
  the entries before it.
\<close>

fun error_of_entry :: "cache_entry \<Rightarrow> indexing_error list" where
  "error_of_entry (ErrorEntry err) = [err]"
| "error_of_entry _ = []"

fun cache_errors :: "generator \<Rightarrow> specifier list \<Rightarrow> indexing_error list" where
  "cache_errors g [] = []"
| "cache_errors g (s # rest) =
     (case map_of (specifierToCache g) s of
        None \<Rightarrow> []
      | Some c \<Rightarrow> concat (map (\<lambda>kv. error_of_entry (snd kv)) c))
     @ cache_errors g rest"

definition duplicate_errors :: "options \<Rightarrow> index_entry list \<Rightarrow> indexing_error list" where
  "duplicate_errors opts es = snd (resolve_duplicates opts es)"

definition conflict_at :: "options \<Rightarrow> index_entry list \<Rightarrow> index_entry \<Rightarrow> indexing_error list" where
  "conflict_at opts before entry =
     (case map_of (fst (resolve_duplicates opts before)) (entry_id entry) of
        None \<Rightarrow> []
      | Some existing \<Rightarrow>
          (case snd (chooseDuplicate opts existing entry) of
             Inl err \<Rightarrow> [err]
           | Inr chosen \<Rightarrow> []))"

section \<open>invalidate\<close>

text \<open>\<open>if (otherCache[dep]) otherCache[dep] = false\<close>, for every cache and dependent.\<close>

definition reset_dependent :: "path \<Rightarrow> specifier_cache \<Rightarrow> specifier_cache" where
  "reset_dependent dep otherCache =
     (if truthy_entry (map_of otherCache dep) then dict_set otherCache dep Unprocessed
      else otherCache)"

definition reset_dependents :: "path list \<Rightarrow> generator \<Rightarrow> generator" where
  "reset_dependents deps g =
     g\<lparr>specifierToCache :=
         map (\<lambda>sc. (fst sc, fold reset_dependent deps (snd sc))) (specifierToCache g)\<rparr>"

text \<open>
  \<open>dependents.splice(dependents.indexOf(absolutePath), 1)\<close>: the first occurrence is
  removed; when there is none, \<open>indexOf\<close> is \<open>-1\<close> and \<open>splice(-1, 1)\<close> removes the
  last element.
\<close>

definition splice_indexOf :: "path list \<Rightarrow> path \<Rightarrow> path list" where
  "splice_indexOf ds p = (if p \<in> set ds then remove1 p ds else butlast ds)"

definition remove_dependent :: "path \<Rightarrow> dependency \<Rightarrow> generator \<Rightarrow> generator" where
  "remove_dependent absolutePath dep g =
     (case slot_get g (fst (fst dep)) (snd (fst dep)) of
        Some (StoriesCacheEntry es ds) \<Rightarrow>
          slot_set g (fst (fst dep)) (snd (fst dep))
            (StoriesCacheEntry es (splice_indexOf ds absolutePath))
      | _ \<Rightarrow> g)"

definition clear_memo :: "generator \<Rightarrow> generator" where
  "clear_memo g = g\<lparr>lastIndex := None, lastError := None\<rparr>"

definition invalidate ::
  "env \<Rightarrow> generator \<Rightarrow> specifier \<Rightarrow> path \<Rightarrow> bool \<Rightarrow> (js_error + unit) \<times> generator" where
  "invalidate env g s ip removed =
     (let absolutePath = slash env (path_resolve env ip)
      in case map_of (specifierToCache g) s of
           None \<Rightarrow> (Inl (TypeError ''Cannot read properties of undefined''), g)
         | Some c \<Rightarrow>
             (let cacheEntry = map_of c absolutePath;
                  g1 = (case cacheEntry of
                          Some (StoriesCacheEntry es ds) \<Rightarrow> reset_dependents ds g
                        | _ \<Rightarrow> g)
              in if removed then
                   (case cacheEntry of
                      Some (DocsCacheEntry d) \<Rightarrow>
                        (case findDependencies g1
                                (map (path_resolve env) (storiesImports d)) of
                           Inl err \<Rightarrow> (Inl err, g1)
                         | Inr dependencies \<Rightarrow>
                             (Inr (),
                              clear_memo (slot_delete
                                (fold (remove_dependent absolutePath) dependencies g1)
                                s absolutePath)))
                    | _ \<Rightarrow> (Inr (), clear_memo (slot_delete g1 s absolutePath)))
                 else (Inr (), clear_memo (slot_set g1 s absolutePath Unprocessed))))"

text \<open>The specifiers that have a cache.\<close>

definition cache_keys :: "generator \<Rightarrow> specifier list" where
  "cache_keys g = map fst (specifierToCache g)"

text \<open>The two memo fields together.\<close>

definition memo :: "generator \<Rightarrow> story_index option \<times> index_error option" where
  "memo g = (lastIndex g, lastError g)"

section \<open>initialize and the states reached in turn\<close>

definition initial_cache :: "env \<Rightarrow> specifier \<Rightarrow> specifier_cache" where
  "initial_cache env s =
     fold (\<lambda>absolutePath pathToSubIndex. dict_set pathToSubIndex absolutePath Unprocessed)
       (filter (\<lambda>absolutePath. path_extname env absolutePath \<noteq> ''.storyshot'')
          (glob_sorted env s)) []"

definition initialize :: "env \<Rightarrow> generator \<Rightarrow> (js_error + unit) \<times> generator" where
  "initialize env g =
     (let g1 = g\<lparr>specifierToCache :=
                   fold (\<lambda>s m. dict_set m s (initial_cache env s)) (specifiers env)
                     (specifierToCache g)\<rparr>
      in case ensureExtracted env g1 of
           (Inl err, g2) \<Rightarrow> (Inl err, g2)
         | (Inr l, g2) \<Rightarrow> (Inr (), g2))"

text \<open>
  The states a generator reaches when its calls do not overlap: it is constructed, and
  then \<open>initialize\<close>, \<open>getIndex\<close> and \<open>invalidate\<close> are called in turn, each call
  running to its end before the next starts. The files and the external functions may
  differ from call to call, so every step has its own environment. The asynchronous
  calls of the source can overlap; the states reached then are those of
  \<open>reachable_overlapping\<close> below.
\<close>

inductive reachable_in_turn :: "generator \<Rightarrow> bool" where
  reachable_new: "reachable_in_turn new_generator"
| reachable_initialize: "reachable_in_turn g \<Longrightarrow> reachable_in_turn (snd (initialize env g))"
| reachable_getIndex: "reachable_in_turn g \<Longrightarrow> reachable_in_turn (snd (getIndex env g))"
| reachable_invalidate: "reachable_in_turn g \<Longrightarrow> reachable_in_turn (snd (invalidate env g s ip removed))"

section \<open>Overlapping calls of getIndex\<close>

text \<open>
  \<open>getIndex\<close> is asynchronous. Once the entries are deduplicated it awaits
  \<open>sortStories\<close> (line 505), which awaits the sort parameter read from the preview
  file; while that is pending the call is suspended, holding its \<open>indexEntries\<close>, and
  other calls run. \<open>getIndex_to_sort\<close> is the call up to that point, with
  \<open>ensureExtracted\<close> taken as one step: the call has returned or thrown (the error
  aggregates are thrown, caught and memoized before the \<open>await\<close>), or it is
  suspended. \<open>getIndex_from_sort\<close> is the rest of a suspended call, run on the
  generator as it is when the call resumes: it reads the file names of the cache, sorts,
  and writes \<open>lastIndex\<close>, or \<open>lastError\<close> if sorting throws.
\<close>

datatype getIndex_progress =
  Returned "index_error + story_index"
| AwaitingSort "(string, index_entry) dict"

definition getIndex_to_sort :: "env \<Rightarrow> generator \<Rightarrow> getIndex_progress \<times> generator" where
  "getIndex_to_sort env g =
     (case lastIndex g of
        Some idx \<Rightarrow> (Returned (Inr idx), g)
      | None \<Rightarrow>
          (case lastError g of
             Some err \<Rightarrow> (Returned (Inl err), g)
           | None \<Rightarrow>
               (case ensureExtracted env g of
                  (Inl err, g') \<Rightarrow> (Returned (Inl (Thrown err)), g')
                | (Inr storiesList, g') \<Rightarrow>
                    (let errorEntries = error_entries storiesList;
                         resolved = resolve_duplicates (options env) (index_entries_of storiesList)
                     in if errorEntries \<noteq> [] then
                          (Returned (Inl (MultipleIndexingError errorEntries)),
                           g'\<lparr>lastError := Some (MultipleIndexingError errorEntries)\<rparr>)
                        else if snd resolved \<noteq> [] then
                          (Returned (Inl (MultipleIndexingError (snd resolved))),
                           g'\<lparr>lastError := Some (MultipleIndexingError (snd resolved))\<rparr>)
                        else (AwaitingSort (fst resolved), g')))))"

definition getIndex_from_sort ::
  "env \<Rightarrow> (string, index_entry) dict \<Rightarrow> generator
     \<Rightarrow> (index_error + story_index) \<times> generator" where
  "getIndex_from_sort env indexEntries g =
     (case sortStories env g indexEntries of
        Inl err \<Rightarrow> (Inl (Thrown err), g\<lparr>lastError := Some (Thrown err)\<rparr>)
      | Inr sortedEntries \<Rightarrow>
          (let idx = \<lparr>index_version = 4,
                      index_entries =
                        (if storiesV2Compatibility (options env) then v2_compat sortedEntries
                         else map (\<lambda>kv. (fst kv, IndexEntry (snd kv))) sortedEntries)\<rparr>
           in (Inr idx, g\<lparr>lastIndex := Some idx\<rparr>)))"

text \<open>
  The states a generator reaches when calls of \<open>getIndex\<close> may overlap with other
  calls at that \<open>await\<close>, together with the \<open>indexEntries\<close> of the calls that are
  suspended there. \<open>initialize\<close>, \<open>invalidate\<close> (which is synchronous) and the
  extraction sweeps are single steps.
\<close>

inductive reachable_overlapping :: "generator \<Rightarrow> (string, index_entry) dict list \<Rightarrow> bool" where
  overlapping_new: "reachable_overlapping new_generator []"
| overlapping_initialize:
    "reachable_overlapping g ps \<Longrightarrow> reachable_overlapping (snd (initialize env g)) ps"
| overlapping_invalidate:
    "reachable_overlapping g ps
     \<Longrightarrow> reachable_overlapping (snd (invalidate env g s ip removed)) ps"
| overlapping_returns:
    "reachable_overlapping g ps \<Longrightarrow> getIndex_to_sort env g = (Returned r, g')
     \<Longrightarrow> reachable_overlapping g' ps"
| overlapping_suspends:
    "reachable_overlapping g ps \<Longrightarrow> getIndex_to_sort env g = (AwaitingSort es, g')
     \<Longrightarrow> reachable_overlapping g' (es # ps)"
| overlapping_resumes:
    "reachable_overlapping g ps \<Longrightarrow> es \<in> set ps
     \<Longrightarrow> reachable_overlapping (snd (getIndex_from_sort env es g)) (remove1 es ps)"

section \<open>A small project\<close>

text \<open>
  A working directory \<open>/w\<close> with one CSF file \<open>A.stories.js\<close> (one story) and one
  docs file \<open>D.mdx\<close> that imports \<open>./A.stories\<close>, one specifier matching both, one
  story indexer for \<open>.stories.js\<close> files, and autodocs switched off. The path
  functions are the ones of a POSIX system, restricted to files directly in \<open>/w\<close>.
\<close>

definition project_options :: options where
  "project_options = \<lparr>storiesV2Compatibility = False, storyStoreV7 = True,
     autodocs = AutodocsFalse, defaultName = ''Docs''\<rparr>"

definition project_csf :: csf_file where
  "project_csf = \<lparr>meta_title = ''A'', meta_tags = None,
     stories = [\<lparr>story_id = ''a--one'', story_name = ''One'', story_tags = None,
                 docsOnly = False\<rparr>]\<rparr>"

definition project_mdx :: mdx_analysis where
  "project_mdx = \<lparr>result_title = None, result_of = None, result_name = None,
     isTemplate = False, result_imports = [''./A.stories''], result_tags = None\<rparr>"

definition project_indexer :: story_indexer where
  "project_indexer = \<lparr>test = suffix ''.stories.js'', indexer = (\<lambda>p s. Inr project_csf)\<rparr>"

definition project :: env where
  "project = \<lparr>
     specifiers = [0],
     options = project_options,
     storyIndexers = [project_indexer],
     readAndAnalyze = (\<lambda>p. Inr project_mdx),
     glob_sorted = (\<lambda>s. [''/w/A.stories.js'', ''/w/D.mdx'']),
     path_extname = (\<lambda>p. if suffix ''.storyshot'' p then ''.storyshot'' else ''''),
     path_relative = drop 3,
     path_resolve = (\<lambda>p. if prefix ''/'' p then p
                          else ''/w/'' @ (if prefix ''./'' p then drop 2 p else p)),
     path_normalize = (\<lambda>p. p),
     path_join_dirname = (\<lambda>a b. if prefix ''./'' b then drop 2 b else b),
     path_sep = ''/'',
     normalizeStoryPath = (\<lambda>p. if prefix ''.'' p then p else ''./'' @ p),
     slash = (\<lambda>p. p),
     userOrAutoTitleFromSpecifier = (\<lambda>ip s t. case t of None \<Rightarrow> ''D'' | Some x \<Rightarrow> x),
     autoName = (\<lambda>ip csfPath dn. dn),
     toId = (\<lambda>t n. Inr (t @ ''--'' @ n)),
     sortStoriesV7 = (\<lambda>es order. Inr es)\<rparr>"

text \<open>The same project with \<open>autodocs: true\<close>.\<close>

definition autodocs_project :: env where
  "autodocs_project = project\<lparr>options := example_options\<rparr>"

text \<open>
  A project whose three CSF files all declare the story \<open>a--one\<close>, and with a file
  \<open>E.stories.jsx\<close> that no indexer accepts.
\<close>

definition conflict_project :: env where
  "conflict_project = project\<lparr>glob_sorted :=
     (\<lambda>s. [''/w/A.stories.js'', ''/w/B.stories.js'', ''/w/C.stories.js'', ''/w/E.stories.jsx''])\<rparr>"

definition story_one :: "path \<Rightarrow> index_entry" where
  "story_one ip = \<lparr>entry_id = ''a--one'', title = ''A'', name = ''One'', importPath = ip,
     tags = Some [''story''], type = Story, storiesImports = []\<rparr>"

definition no_indexer_error :: indexing_error where
  "no_indexer_error = IndexingError ''No matching story indexer found for /w/E.stories.jsx''
     [''./E.stories.jsx'']"

definition conflict_initialized :: generator where
  "conflict_initialized = snd (initialize conflict_project new_generator)"

definition conflict_without_E :: generator where
  "conflict_without_E = snd (invalidate conflict_project conflict_initialized 0 ''./E.stories.jsx'' True)"

text \<open>The generator of the project after \<open>initialize\<close> and a first \<open>getIndex\<close>.\<close>

definition project_indexed :: generator where
  "project_indexed = snd (getIndex project (snd (initialize project new_generator)))"

definition project_edited :: generator where
  "project_edited =
     snd (getIndex project (snd (invalidate project project_indexed 0 ''./D.mdx'' False)))"

definition project_removed :: generator where
  "project_removed = snd (invalidate project project_edited 0 ''./D.mdx'' True)"

text \<open>
  The project after a first index and after a file \<open>A.stories.jsx\<close>, which no indexer
  accepts, was then added and indexed.
\<close>

definition project_broken :: generator where
  "project_broken =
     snd (getIndex project (snd (invalidate project project_indexed 0 ''./A.stories.jsx'' False)))"

text \<open>The project with \<open>storyStoreV7\<close> switched off, and its generator before any
  extraction.\<close>

definition v6_project :: env where
  "v6_project = project\<lparr>options := project_options\<lparr>storyStoreV7 := False\<rparr>\<rparr>"

definition project_unprocessed :: generator where
  "project_unprocessed = new_generator\<lparr>specifierToCache :=
     [(0, [(''/w/A.stories.js'', Unprocessed), (''/w/D.mdx'', Unprocessed)])]\<rparr>"

text \<open>
  A project whose CSF file comes from a \<open>.stories.mdx\<close> page without stories: the
  indexer returns one story, flagged \<open>docsOnly\<close>, and the \<open>stories-mdx\<close> tag.
\<close>

definition docs_only_csf :: csf_file where
  "docs_only_csf = \<lparr>meta_title = ''A'', meta_tags = Some [''stories-mdx''],
     stories = [\<lparr>story_id = ''a--page'', story_name = ''Page'', story_tags = None,
                 docsOnly = True\<rparr>]\<rparr>"

definition docs_only_project :: env where
  "docs_only_project = project\<lparr>storyIndexers :=
     [\<lparr>test = suffix ''.stories.js'', indexer = (\<lambda>p s. Inr docs_only_csf)\<rparr>]\<rparr>"

text \<open>
  The project in a run with two overlapping calls of \<open>getIndex\<close>. After
  \<open>initialize\<close>, a first call deduplicates the two entries and is suspended at the
  sort. Meanwhile \<open>A.stories.jsx\<close>, which no indexer accepts, is added
  (\<open>invalidate\<close>), and a second call of \<open>getIndex\<close> runs and throws. Then the
  first call resumes.
\<close>

definition project_initialized :: generator where
  "project_initialized = snd (initialize project new_generator)"

definition project_sorting :: "(string, index_entry) dict" where
  "project_sorting =
     [(''a--one'', story_one ''./A.stories.js''),
      (''D--Docs'', \<lparr>entry_id = ''D--Docs'', title = ''D'', name = ''Docs'',
         importPath = ''./D.mdx'', tags = Some [''docs''], type = Docs,
         storiesImports = [''./A.stories.js'']\<rparr>)]"

definition project_second_call :: generator where
  "project_second_call =
     snd (getIndex project (snd (invalidate project project_initialized 0 ''./A.stories.jsx'' False)))"

definition project_raced :: generator where
  "project_raced = snd (getIndex_from_sort project project_sorting project_second_call)"

section \<open>Properties of chooseDuplicate\<close>

lemma chooseDuplicate_two_stories:
  assumes "type a = Story" and "type b = Story"
  shows "chooseDuplicate opts a b =
    ([], Inl (IndexingError (''Duplicate stories with id: '' @ entry_id a)
                [importPath a, importPath b]))"
  using assms by (simp add: chooseDuplicate_def)

lemma chooseDuplicate_two_templates:
  assumes "type a = Docs" and "type b = Docs" and "\<not> isMdxEntry a" and "\<not> isMdxEntry b"
  shows "chooseDuplicate opts a b =
    ([], Inr (a\<lparr>storiesImports := storiesImports a @ [importPath b] @ storiesImports b\<rparr>))"
  using assms by (simp add: chooseDuplicate_def)

lemma chooseDuplicate_two_mdx:
  assumes "type a = Docs" and "type b = Docs" and "isMdxEntry a" and "isMdxEntry b"
  shows "chooseDuplicate opts a b = ([TwoDocsPages (title a) (name a)], Inr a)"
  using assms by (simp add: chooseDuplicate_def isMdxEntry_def)

lemma chooseDuplicate_commute_classes:
  assumes "entry_class_of a \<noteq> entry_class_of b"
  shows "chooseDuplicate opts a b = chooseDuplicate opts b a"
proof (cases "type a")
  case Story
  with assms have b: "type b = Docs"
    by (cases "type b") (simp_all add: entry_class_of_def)
  from Story b show ?thesis by (simp add: chooseDuplicate_def)
next
  case Docs
  show ?thesis
  proof (cases "type b")
    case Story
    with Docs show ?thesis by (simp add: chooseDuplicate_def)
  next
    case b: Docs
    from assms Docs b have "isMdxEntry a \<noteq> isMdxEntry b"
      by (auto simp: entry_class_of_def split: if_splits)
    with Docs b show ?thesis by (auto simp: chooseDuplicate_def)
  qed
qed

text \<open>
  Claim C5. Whenever both entries are story entries, \<open>chooseDuplicate\<close> throws an
  \<open>IndexingError\<close> whose import paths are the two entries' import paths (first
  argument first); it logs nothing and returns no entry. This holds in particular when
  the two entries share their identifier.
\<close>

theorem chooseDuplicate_stories_conflict:
  assumes "type a = Story" and "type b = Story" and "entry_id a = entry_id b"
  shows "chooseDuplicate opts a b =
           ([], Inl (IndexingError (''Duplicate stories with id: '' @ entry_id a)
                       [importPath a, importPath b]))
         \<and> (\<forall>w e. chooseDuplicate opts a b \<noteq> (w, Inr e))"
  using assms by (simp add: chooseDuplicate_two_stories)

theorem chooseDuplicate_stories_conflict_witness:
  "type story_a = Story \<and> type story_b = Story \<and> entry_id story_a = entry_id story_b
   \<and> chooseDuplicate example_options story_a story_b =
       ([], Inl (IndexingError ''Duplicate stories with id: button--primary''
                   [''./a/Button.stories.js'', ''./b/Button.stories.js'']))"
proof -
  have h: "type story_a = Story" "type story_b = Story" "entry_id story_a = entry_id story_b"
    by (simp_all add: story_a_def story_b_def)
  from chooseDuplicate_stories_conflict [OF h, of example_options]
  show ?thesis using h by (simp add: story_a_def story_b_def)
qed

text \<open>
  Claim C4, as the code has it. For two docs entries with one identifier, neither of
  them an MDX entry, \<open>chooseDuplicate\<close> logs nothing and returns the first entry
  with a new \<open>storiesImports\<close>: the first entry's list, then the second entry's
  \<open>importPath\<close>, then the second entry's list. Title, name, import path, identifier
  and tags are the first entry's. As a set, \<open>storiesImports\<close> is the union of the
  two lists together with the second entry's import path.
\<close>

theorem chooseDuplicate_merge:
  assumes "type a = Docs" and "type b = Docs" and "entry_id a = entry_id b"
    and "\<not> isMdxEntry a" and "\<not> isMdxEntry b"
  shows "\<exists>m. chooseDuplicate opts a b = ([], Inr m)
           \<and> title m = title a \<and> name m = name a \<and> importPath m = importPath a
           \<and> entry_id m = entry_id a \<and> tags m = tags a \<and> type m = Docs
           \<and> storiesImports m = storiesImports a @ [importPath b] @ storiesImports b
           \<and> set (storiesImports m) =
                 set (storiesImports a) \<union> set (storiesImports b) \<union> {importPath b}"
  using assms by (auto simp: chooseDuplicate_two_templates)

theorem chooseDuplicate_merge_witness:
  "type template_docs_a = Docs \<and> type template_docs_b = Docs
   \<and> entry_id template_docs_a = entry_id template_docs_b
   \<and> \<not> isMdxEntry template_docs_a \<and> \<not> isMdxEntry template_docs_b
   \<and> (\<exists>m. chooseDuplicate example_options template_docs_a template_docs_b = ([], Inr m)
          \<and> importPath m = ''./a/Button.stories.js''
          \<and> storiesImports m = [''./b/Button.stories.js''])"
proof -
  have h: "type template_docs_a = Docs" "type template_docs_b = Docs"
    "entry_id template_docs_a = entry_id template_docs_b"
    "\<not> isMdxEntry template_docs_a" "\<not> isMdxEntry template_docs_b"
    by (simp_all add: template_docs_a_def template_docs_b_def isMdxEntry_def tags_include_def
        AUTODOCS_TAG_def STORIES_MDX_TAG_def)
  from chooseDuplicate_merge [OF h, of example_options]
  obtain m where m: "chooseDuplicate example_options template_docs_a template_docs_b = ([], Inr m)"
    "importPath m = importPath template_docs_a"
    "storiesImports m = storiesImports template_docs_a @ [importPath template_docs_b]
       @ storiesImports template_docs_b"
    by blast
  have "importPath m = ''./a/Button.stories.js''"
    "storiesImports m = [''./b/Button.stories.js'']"
    using m(2,3) by (simp_all add: template_docs_a_def template_docs_b_def)
  with m(1) h show ?thesis by blast
qed

text \<open>
  The merged list is not the union of the two original lists: two template docs entries
  that import nothing merge into an entry that imports the second entry's file.
\<close>

theorem chooseDuplicate_merge_counterexample:
  "type template_docs_a = Docs \<and> type template_docs_b = Docs
   \<and> entry_id template_docs_a = entry_id template_docs_b
   \<and> \<not> isMdxEntry template_docs_a \<and> \<not> isMdxEntry template_docs_b
   \<and> chooseDuplicate example_options template_docs_a template_docs_b =
        ([], Inr (template_docs_a\<lparr>storiesImports := [''./b/Button.stories.js'']\<rparr>))
   \<and> set [''./b/Button.stories.js''] \<noteq>
        set (storiesImports template_docs_a) \<union> set (storiesImports template_docs_b)"
  by (simp add: chooseDuplicate_def template_docs_a_def template_docs_b_def isMdxEntry_def
      tags_include_def AUTODOCS_TAG_def STORIES_MDX_TAG_def)

text \<open>
  Claim C2, as the code has it. Let two entries share their identifier.
  \<^item> If they belong to different classes (story, MDX docs, template docs), both argument
    orders give the same warnings and the same result (entry or error).
  \<^item> Two story entries throw in both orders, the error naming the import paths in
    argument order.
  \<^item> Two MDX docs entries: the first argument is returned unchanged, with one warning
    naming its title and name.
  \<^item> Two template docs entries: the first argument survives the merge, as in C4.
\<close>

theorem chooseDuplicate_order:
  assumes "entry_id a = entry_id b"
  shows "(entry_class_of a \<noteq> entry_class_of b \<longrightarrow>
            chooseDuplicate opts a b = chooseDuplicate opts b a)
       \<and> (entry_class_of a = StoryClass \<and> entry_class_of b = StoryClass \<longrightarrow>
            chooseDuplicate opts a b =
              ([], Inl (IndexingError (''Duplicate stories with id: '' @ entry_id a)
                          [importPath a, importPath b]))
          \<and> chooseDuplicate opts b a =
              ([], Inl (IndexingError (''Duplicate stories with id: '' @ entry_id a)
                          [importPath b, importPath a])))
       \<and> (entry_class_of a = MdxDocsClass \<and> entry_class_of b = MdxDocsClass \<longrightarrow>
            chooseDuplicate opts a b = ([TwoDocsPages (title a) (name a)], Inr a)
          \<and> chooseDuplicate opts b a = ([TwoDocsPages (title b) (name b)], Inr b))
       \<and> (entry_class_of a = TemplateDocsClass \<and> entry_class_of b = TemplateDocsClass \<longrightarrow>
            chooseDuplicate opts a b =
              ([], Inr (a\<lparr>storiesImports :=
                          storiesImports a @ [importPath b] @ storiesImports b\<rparr>))
          \<and> chooseDuplicate opts b a =
              ([], Inr (b\<lparr>storiesImports :=
                          storiesImports b @ [importPath a] @ storiesImports a\<rparr>)))"
proof (intro conjI impI)
  assume "entry_class_of a \<noteq> entry_class_of b"
  then show "chooseDuplicate opts a b = chooseDuplicate opts b a"
    by (rule chooseDuplicate_commute_classes)
next
  assume "entry_class_of a = StoryClass \<and> entry_class_of b = StoryClass"
  then have t: "type a = Story" "type b = Story"
    by (auto simp: entry_class_of_def split: if_splits)
  show "chooseDuplicate opts a b =
      ([], Inl (IndexingError (''Duplicate stories with id: '' @ entry_id a)
                  [importPath a, importPath b]))"
    using t by (rule chooseDuplicate_two_stories)
  show "chooseDuplicate opts b a =
      ([], Inl (IndexingError (''Duplicate stories with id: '' @ entry_id a)
                  [importPath b, importPath a]))"
    using chooseDuplicate_two_stories [OF t(2) t(1)] assms by simp
next
  assume "entry_class_of a = MdxDocsClass \<and> entry_class_of b = MdxDocsClass"
  then have t: "type a = Docs" "type b = Docs" "isMdxEntry a" "isMdxEntry b"
    by (auto simp: entry_class_of_def split: if_splits intro: entry_type.exhaust)
  show "chooseDuplicate opts a b = ([TwoDocsPages (title a) (name a)], Inr a)"
    using t by (rule chooseDuplicate_two_mdx)
  show "chooseDuplicate opts b a = ([TwoDocsPages (title b) (name b)], Inr b)"
    using t(2) t(1) t(4) t(3) by (rule chooseDuplicate_two_mdx)
next
  assume "entry_class_of a = TemplateDocsClass \<and> entry_class_of b = TemplateDocsClass"
  then have t: "type a = Docs" "type b = Docs" "\<not> isMdxEntry a" "\<not> isMdxEntry b"
    by (auto simp: entry_class_of_def split: if_splits intro: entry_type.exhaust)
  show "chooseDuplicate opts a b =
      ([], Inr (a\<lparr>storiesImports := storiesImports a @ [importPath b] @ storiesImports b\<rparr>))"
    using t by (rule chooseDuplicate_two_templates)
  show "chooseDuplicate opts b a =
      ([], Inr (b\<lparr>storiesImports := storiesImports b @ [importPath a] @ storiesImports a\<rparr>))"
    using t(2) t(1) t(4) t(3) by (rule chooseDuplicate_two_templates)
qed

lemma example_classes:
  "entry_class_of docs_named_story = StoryClass"
  "entry_class_of story_a = StoryClass"
  "entry_class_of story_b = StoryClass"
  "entry_class_of mdx_docs_a = MdxDocsClass"
  "entry_class_of mdx_docs_b = MdxDocsClass"
  "entry_class_of template_docs_a = TemplateDocsClass"
  "entry_class_of template_docs_b = TemplateDocsClass"
  by (simp_all add: entry_class_of_def isMdxEntry_def tags_include_def AUTODOCS_TAG_def
      STORIES_MDX_TAG_def docs_named_story_def story_a_def story_b_def mdx_docs_a_def
      mdx_docs_b_def template_docs_a_def template_docs_b_def)

theorem chooseDuplicate_order_witness:
  "entry_id docs_named_story = entry_id template_docs_a
   \<and> entry_class_of docs_named_story \<noteq> entry_class_of template_docs_a
   \<and> chooseDuplicate example_options docs_named_story template_docs_a =
       chooseDuplicate example_options template_docs_a docs_named_story
   \<and> entry_id story_a = entry_id story_b
   \<and> entry_class_of story_a = StoryClass \<and> entry_class_of story_b = StoryClass
   \<and> chooseDuplicate example_options story_b story_a =
       ([], Inl (IndexingError ''Duplicate stories with id: button--primary''
                   [''./b/Button.stories.js'', ''./a/Button.stories.js'']))
   \<and> entry_id mdx_docs_a = entry_id mdx_docs_b
   \<and> entry_class_of mdx_docs_a = MdxDocsClass \<and> entry_class_of mdx_docs_b = MdxDocsClass
   \<and> chooseDuplicate example_options mdx_docs_b mdx_docs_a =
       ([TwoDocsPages ''Button'' ''Docs''], Inr mdx_docs_b)
   \<and> entry_id template_docs_a = entry_id template_docs_b
   \<and> entry_class_of template_docs_a = TemplateDocsClass
   \<and> entry_class_of template_docs_b = TemplateDocsClass
   \<and> chooseDuplicate example_options template_docs_b template_docs_a =
       ([], Inr (template_docs_b\<lparr>storiesImports := [''./a/Button.stories.js'']\<rparr>))"
proof -
  have ids: "entry_id docs_named_story = entry_id template_docs_a"
    "entry_id story_a = entry_id story_b" "entry_id mdx_docs_a = entry_id mdx_docs_b"
    "entry_id template_docs_a = entry_id template_docs_b"
    by (simp_all add: docs_named_story_def story_a_def story_b_def mdx_docs_a_def
        mdx_docs_b_def template_docs_a_def template_docs_b_def)
  have 1: "chooseDuplicate example_options docs_named_story template_docs_a =
       chooseDuplicate example_options template_docs_a docs_named_story"
    using chooseDuplicate_order [OF ids(1), of example_options] by (simp add: example_classes)
  have 2: "chooseDuplicate example_options story_b story_a =
       ([], Inl (IndexingError ''Duplicate stories with id: button--primary''
                   [''./b/Button.stories.js'', ''./a/Button.stories.js'']))"
    using chooseDuplicate_order [OF ids(2), of example_options]
    by (simp add: example_classes) (simp add: story_a_def story_b_def)
  have 3: "chooseDuplicate example_options mdx_docs_b mdx_docs_a =
       ([TwoDocsPages ''Button'' ''Docs''], Inr mdx_docs_b)"
    using chooseDuplicate_order [OF ids(3), of example_options]
    by (simp add: example_classes) (simp add: mdx_docs_b_def)
  have 4: "chooseDuplicate example_options template_docs_b template_docs_a =
       ([], Inr (template_docs_b\<lparr>storiesImports := [''./a/Button.stories.js'']\<rparr>))"
    using chooseDuplicate_order [OF ids(4), of example_options]
    by (simp add: example_classes) (simp add: template_docs_a_def template_docs_b_def)
  from ids 1 2 3 4 show ?thesis by (simp add: example_classes)
qed

text \<open>
  The two argument orders do not give the same winner for two docs entries of one class:
  the merged entry keeps the import path of whichever entry came first, and imports the
  other one.
\<close>

theorem chooseDuplicate_order_counterexample:
  "entry_id template_docs_a = entry_id template_docs_b
   \<and> chooseDuplicate example_options template_docs_a template_docs_b =
        ([], Inr (template_docs_a\<lparr>storiesImports := [''./b/Button.stories.js'']\<rparr>))
   \<and> chooseDuplicate example_options template_docs_b template_docs_a =
        ([], Inr (template_docs_b\<lparr>storiesImports := [''./a/Button.stories.js'']\<rparr>))
   \<and> importPath template_docs_a \<noteq> importPath template_docs_b
   \<and> set [''./b/Button.stories.js''] \<noteq> set [''./a/Button.stories.js'']"
  by (simp add: chooseDuplicate_def template_docs_a_def template_docs_b_def isMdxEntry_def
      tags_include_def AUTODOCS_TAG_def STORIES_MDX_TAG_def)

section \<open>The memoized index\<close>





section \<open>The docs entry of a CSF file\<close>

lemma story_entry_fields:
  "type (story_entry csf ip cts st) = Story" "importPath (story_entry csf ip cts st) = ip"
  by (simp_all add: story_entry_def)

lemma extractStories_found:
  assumes "find (\<lambda>i. test i absolutePath) (storyIndexers env) = Some ix"
    and "indexer ix absolutePath s = Inr csf"
  shows "extractStories env s absolutePath g =
    (if wants_docs env csf
     then (case toId env (meta_title csf) (defaultName (options env)) of
             Inl err \<Rightarrow>
               (Inl err, g\<lparr>extractor_calls := extractor_calls g @ [IndexerCall absolutePath]\<rparr>)
           | Inr i \<Rightarrow>
               (Inr (StoriesCacheEntry
                  (\<lparr>entry_id = i, title = meta_title csf, name = defaultName (options env),
                    importPath = slash env (normalizeStoryPath env (path_relative env absolutePath)),
                    tags = Some (component_tags csf @ [''docs'']
                      @ (if autodocsOptedIn (options env) (component_tags csf)
                            \<and> AUTODOCS_TAG \<notin> set (component_tags csf)
                         then [AUTODOCS_TAG] else [])),
                    type = Docs, storiesImports = []\<rparr>
                   # map (story_entry csf
                       (slash env (normalizeStoryPath env (path_relative env absolutePath)))
                       (component_tags csf))
                     (filter (\<lambda>st. \<not> docsOnly st) (stories csf))) []),
                g\<lparr>extractor_calls := extractor_calls g @ [IndexerCall absolutePath]\<rparr>))
     else (Inr (StoriesCacheEntry
             (map (story_entry csf
                 (slash env (normalizeStoryPath env (path_relative env absolutePath)))
                 (component_tags csf))
               (filter (\<lambda>st. \<not> docsOnly st) (stories csf))) []),
           g\<lparr>extractor_calls := extractor_calls g @ [IndexerCall absolutePath]\<rparr>))"
  unfolding extractStories_def Let_def wants_docs_def component_tags_def
  using assms by simp

lemma wants_docs_iff:
  "wants_docs env csf \<longleftrightarrow>
     stories csf \<noteq> []
     \<and> (tags_include (meta_tags csf) STORIES_MDX_TAG
          \<or> autodocs (options env) = AutodocsTrue
          \<or> (autodocs (options env) = AutodocsTag
               \<and> tags_include (meta_tags csf) AUTODOCS_TAG))"
  by (auto simp: wants_docs_def component_tags_def autodocsOptedIn_def tags_include_def
      split: option.splits)

text \<open>
  Claim C8, as the code has it. Let the indexer found for a file return \<open>csf\<close>, and let
  \<open>extractStories\<close> return. The returned entry list holds a docs entry if and only if
  the indexer returned at least one story (\<open>csf.stories.length\<close>, counted before the
  \<open>docsOnly\<close> stories are left out) and the file carries the \<open>stories-mdx\<close> tag, or
  \<open>autodocs\<close> is \<open>true\<close>, or \<open>autodocs\<close> is \<open>'tag'\<close> and the file carries the
  \<open>autodocs\<close> tag. When there is one, it is the head of the list, every entry after it
  is a story entry of the same file, its name is the default docs name and its
  \<open>importPath\<close> is the import path of the file itself.
\<close>

theorem extractStories_docs_entry:
  assumes "find (\<lambda>i. test i absolutePath) (storyIndexers env) = Some ix"
    and "indexer ix absolutePath s = Inr csf"
    and "extractStories env s absolutePath g = (Inr r, g')"
  shows "\<exists>es. r = StoriesCacheEntry es []
      \<and> ((\<exists>e \<in> set es. type e = Docs) \<longleftrightarrow>
           stories csf \<noteq> []
           \<and> (tags_include (meta_tags csf) STORIES_MDX_TAG
                \<or> autodocs (options env) = AutodocsTrue
                \<or> (autodocs (options env) = AutodocsTag
                     \<and> tags_include (meta_tags csf) AUTODOCS_TAG)))
      \<and> ((\<exists>e \<in> set es. type e = Docs) \<longrightarrow>
           (\<exists>d rest. es = d # rest \<and> type d = Docs
              \<and> name d = defaultName (options env)
              \<and> title d = meta_title csf
              \<and> importPath d = slash env (normalizeStoryPath env (path_relative env absolutePath))
              \<and> (\<forall>e \<in> set rest. type e = Story \<and> importPath e = importPath d)))"
proof -
  let ?ip = "slash env (normalizeStoryPath env (path_relative env absolutePath))"
  let ?sts = "map (story_entry csf ?ip (component_tags csf))
                (filter (\<lambda>st. \<not> docsOnly st) (stories csf))"
  have sts: "\<forall>e \<in> set ?sts. type e = Story \<and> importPath e = ?ip"
    by (auto simp: story_entry_fields)
  note eq = extractStories_found [OF assms(1,2), of g]
  show ?thesis
  proof (cases "wants_docs env csf")
    case False
    with eq assms(3) have r: "r = StoriesCacheEntry ?sts []" by simp
    have "\<not> (\<exists>e \<in> set ?sts. type e = Docs)" using sts by auto
    with r False show ?thesis unfolding wants_docs_iff [symmetric] by blast
  next
    case True
    with eq assms(3) obtain i where
      r: "r = StoriesCacheEntry
            (\<lparr>entry_id = i, title = meta_title csf, name = defaultName (options env),
              importPath = ?ip,
              tags = Some (component_tags csf @ [''docs'']
                @ (if autodocsOptedIn (options env) (component_tags csf)
                      \<and> AUTODOCS_TAG \<notin> set (component_tags csf)
                   then [AUTODOCS_TAG] else [])),
              type = Docs, storiesImports = []\<rparr> # ?sts) []"
      by (auto split: sum.splits)
    show ?thesis
      unfolding r wants_docs_iff [symmetric] using True sts by simp
  qed
qed

theorem extractStories_docs_entry_witness:
  "find (\<lambda>i. test i ''/w/A.stories.js'') (storyIndexers autodocs_project)
     = Some project_indexer
   \<and> indexer project_indexer ''/w/A.stories.js'' 0 = Inr project_csf
   \<and> extractStories autodocs_project 0 ''/w/A.stories.js'' new_generator =
       (Inr (StoriesCacheEntry
          [\<lparr>entry_id = ''A--Docs'', title = ''A'', name = ''Docs'',
             importPath = ''./A.stories.js'', tags = Some [''docs'', ''autodocs''],
             type = Docs, storiesImports = []\<rparr>,
           \<lparr>entry_id = ''a--one'', title = ''A'', name = ''One'',
             importPath = ''./A.stories.js'', tags = Some [''story''],
             type = Story, storiesImports = []\<rparr>] []),
        new_generator\<lparr>extractor_calls := [IndexerCall ''/w/A.stories.js'']\<rparr>)
   \<and> stories project_csf \<noteq> []
   \<and> autodocs (options autodocs_project) = AutodocsTrue
   \<and> (\<exists>d rest.
         [\<lparr>entry_id = ''A--Docs'', title = ''A'', name = ''Docs'',
            importPath = ''./A.stories.js'', tags = Some [''docs'', ''autodocs''],
            type = Docs, storiesImports = []\<rparr>,
          \<lparr>entry_id = ''a--one'', title = ''A'', name = ''One'',
            importPath = ''./A.stories.js'', tags = Some [''story''],
            type = Story, storiesImports = []\<rparr>] = d # rest
         \<and> type d = Docs \<and> name d = ''Docs'' \<and> importPath d = ''./A.stories.js''
         \<and> (\<forall>e \<in> set rest. type e = Story \<and> importPath e = importPath d))"
proof -
  have h1: "find (\<lambda>i. test i ''/w/A.stories.js'') (storyIndexers autodocs_project)
     = Some project_indexer"
  proof -
    have "test project_indexer ''/w/A.stories.js''" by code_simp
    then show ?thesis by (simp add: autodocs_project_def project_def)
  qed
  have h2: "indexer project_indexer ''/w/A.stories.js'' 0 = Inr project_csf"
    by (simp add: project_indexer_def)
  have h3: "extractStories autodocs_project 0 ''/w/A.stories.js'' new_generator =
       (Inr (StoriesCacheEntry
          [\<lparr>entry_id = ''A--Docs'', title = ''A'', name = ''Docs'',
             importPath = ''./A.stories.js'', tags = Some [''docs'', ''autodocs''],
             type = Docs, storiesImports = []\<rparr>,
           \<lparr>entry_id = ''a--one'', title = ''A'', name = ''One'',
             importPath = ''./A.stories.js'', tags = Some [''story''],
             type = Story, storiesImports = []\<rparr>] []),
        new_generator\<lparr>extractor_calls := [IndexerCall ''/w/A.stories.js'']\<rparr>)"
    by code_simp
  have h4: "stories project_csf \<noteq> []" by (simp add: project_csf_def)
  have h5: "autodocs (options autodocs_project) = AutodocsTrue"
    by (simp add: autodocs_project_def example_options_def)
  have h6: "defaultName (options autodocs_project) = ''Docs''"
    by (simp add: autodocs_project_def example_options_def)
  have h7: "slash autodocs_project (normalizeStoryPath autodocs_project
              (path_relative autodocs_project ''/w/A.stories.js'')) = ''./A.stories.js''"
    by (simp add: autodocs_project_def project_def)
  from extractStories_docs_entry [OF h1 h2 h3] h4 h5
  have "\<exists>d rest.
         [\<lparr>entry_id = ''A--Docs'', title = ''A'', name = ''Docs'',
            importPath = ''./A.stories.js'', tags = Some [''docs'', ''autodocs''],
            type = Docs, storiesImports = []\<rparr>,
          \<lparr>entry_id = ''a--one'', title = ''A'', name = ''One'',
            importPath = ''./A.stories.js'', tags = Some [''story''],
            type = Story, storiesImports = []\<rparr>] = d # rest
         \<and> type d = Docs \<and> name d = ''Docs'' \<and> importPath d = ''./A.stories.js''
         \<and> (\<forall>e \<in> set rest. type e = Story \<and> importPath e = importPath d)"
    unfolding h6 h7 by simp
  with h1 h2 h3 h4 h5 show ?thesis by blast
qed

text \<open>
  The docs entry does not depend on the file's entries being non-empty. The indexer
  returns one story, flagged \<open>docsOnly\<close>, for a docs-only \<open>.stories.mdx\<close> page: it
  is filtered out, so the file has no entry when the test is made, and the docs entry is
  added all the same, as the only entry of the file.
\<close>

theorem extractStories_docs_entry_counterexample:
  "stories docs_only_csf \<noteq> []
   \<and> filter (\<lambda>st. \<not> docsOnly st) (stories docs_only_csf) = []
   \<and> extractStories docs_only_project 0 ''/w/A.stories.js'' new_generator =
       (Inr (StoriesCacheEntry
          [\<lparr>entry_id = ''A--Docs'', title = ''A'', name = ''Docs'',
             importPath = ''./A.stories.js'', tags = Some [''stories-mdx'', ''docs''],
             type = Docs, storiesImports = []\<rparr>] []),
        new_generator\<lparr>extractor_calls := [IndexerCall ''/w/A.stories.js'']\<rparr>)"
  by code_simp

section \<open>findDependencies\<close>

lemma import_found_iff:
  assumes "[] \<notin> set absoluteImports"
  shows "import_found absoluteImports fileName \<longleftrightarrow> matches_import absoluteImports fileName"
proof (cases "find (\<lambda>i. prefix i fileName) absoluteImports")
  case None
  then have "\<not> matches_import absoluteImports fileName"
    by (auto simp: matches_import_def find_None_iff)
  with None show ?thesis by (simp add: import_found_def)
next
  case (Some i)
  then have "i \<in> set absoluteImports" "prefix i fileName"
    by (auto simp: find_Some_iff)
  with Some assms show ?thesis
    by (auto simp: import_found_def matches_import_def)
qed

lemma dependency_entry_simp:
  "dependency_entry (sl, es, ds) = (sl, StoriesCacheEntry es ds)"
  by (simp add: dependency_entry_def)

lemma collect_dependencies_stories:
  assumes "\<forall>kv \<in> set c. is_stories (snd kv)"
  shows "\<exists>deps. collect_dependencies s c = Inr deps
           \<and> map dependency_entry deps = map (\<lambda>kv. ((s, fst kv), snd kv)) c"
  using assms
proof (induction s c rule: collect_dependencies.induct)
  case (1 s)
  then show ?case by simp
next
  case (2 s fileName es ds rest)
  then obtain deps where "collect_dependencies s rest = Inr deps"
    "map dependency_entry deps = map (\<lambda>kv. ((s, fst kv), snd kv)) rest"
    by auto
  then show ?case by (simp add: dependency_entry_simp)
qed simp_all

lemma collect_dependencies_other:
  assumes "\<exists>kv \<in> set c. \<not> is_stories (snd kv)"
  shows "\<exists>kv \<in> set c. \<not> is_stories (snd kv)
           \<and> collect_dependencies s c = Inl (Error (''Unexpected dependency: '' @ to_string (snd kv)))"
  using assms
proof (induction s c rule: collect_dependencies.induct)
  case (1 s)
  then show ?case by simp
next
  case (2 s fileName es ds rest)
  then have "\<exists>kv \<in> set rest. \<not> is_stories (snd kv)" by auto
  with 2 obtain kv where "kv \<in> set rest" "\<not> is_stories (snd kv)"
    "collect_dependencies s rest = Inl (Error (''Unexpected dependency: '' @ to_string (snd kv)))"
    by blast
  then show ?case by auto
qed auto

lemma matched_in_mem:
  assumes "kv \<in> set c" and "matches_import absoluteImports (fst kv)"
  shows "((s, fst kv), snd kv) \<in> set (matched_in absoluteImports s c)"
  using assms by (auto simp: matched_in_def image_iff)

lemma matched_in_elim:
  assumes "x \<in> set (matched_in absoluteImports s c)"
  shows "\<exists>kv \<in> set c. matches_import absoluteImports (fst kv) \<and> x = ((s, fst kv), snd kv)"
  using assms by (auto simp: matched_in_def)

lemma findDependencies_in_stories:
  assumes "[] \<notin> set absoluteImports"
    and "\<forall>x \<in> set (concat (map (\<lambda>sc. matched_in absoluteImports (fst sc) (snd sc)) caches)).
           is_stories (snd x)"
  shows "\<exists>deps. findDependencies_in absoluteImports caches = Inr deps
           \<and> map dependency_entry deps
               = concat (map (\<lambda>sc. matched_in absoluteImports (fst sc) (snd sc)) caches)"
  using assms(2)
proof (induction caches)
  case Nil
  then show ?case by simp
next
  case (Cons sc caches)
  obtain s c where sc: "sc = (s, c)" by (cases sc)
  let ?m = "filter (\<lambda>kv. matches_import absoluteImports (fst kv)) c"
  have f: "filter (\<lambda>kv. import_found absoluteImports (fst kv)) c = ?m"
    using import_found_iff [OF assms(1)] by simp
  have "\<forall>kv \<in> set ?m. is_stories (snd kv)"
  proof
    fix kv assume "kv \<in> set ?m"
    then have "((s, fst kv), snd kv) \<in> set (matched_in absoluteImports s c)"
      by (simp add: matched_in_mem)
    moreover have "\<forall>x \<in> set (matched_in absoluteImports s c). is_stories (snd x)"
      using Cons.prems unfolding sc by simp
    ultimately show "is_stories (snd kv)" by force
  qed
  from collect_dependencies_stories [OF this, of s]
  obtain deps where deps: "collect_dependencies s ?m = Inr deps"
    "map dependency_entry deps = matched_in absoluteImports s c"
    by (auto simp: matched_in_def)
  from Cons obtain deps' where deps': "findDependencies_in absoluteImports caches = Inr deps'"
    "map dependency_entry deps'
       = concat (map (\<lambda>sc. matched_in absoluteImports (fst sc) (snd sc)) caches)"
    by auto
  show ?case unfolding sc using deps deps' by (simp add: f)
qed

lemma findDependencies_in_other:
  assumes "[] \<notin> set absoluteImports"
    and "\<exists>x \<in> set (concat (map (\<lambda>sc. matched_in absoluteImports (fst sc) (snd sc)) caches)).
           \<not> is_stories (snd x)"
  shows "\<exists>x \<in> set (concat (map (\<lambda>sc. matched_in absoluteImports (fst sc) (snd sc)) caches)).
           \<not> is_stories (snd x)
           \<and> findDependencies_in absoluteImports caches
               = Inl (Error (''Unexpected dependency: '' @ to_string (snd x)))"
  using assms(2)
proof (induction caches)
  case Nil
  then show ?case by simp
next
  case (Cons sc caches)
  obtain s c where sc: "sc = (s, c)" by (cases sc)
  let ?m = "filter (\<lambda>kv. matches_import absoluteImports (fst kv)) c"
  have f: "filter (\<lambda>kv. import_found absoluteImports (fst kv)) c = ?m"
    using import_found_iff [OF assms(1)] by simp
  show ?case
  proof (cases "\<exists>kv \<in> set ?m. \<not> is_stories (snd kv)")
    case True
    from collect_dependencies_other [OF this, of s]
    obtain kv where kv: "kv \<in> set ?m" "\<not> is_stories (snd kv)"
      "collect_dependencies s ?m = Inl (Error (''Unexpected dependency: '' @ to_string (snd kv)))"
      by blast
    have "((s, fst kv), snd kv) \<in> set (matched_in absoluteImports s c)"
      using kv(1) by (force simp: matched_in_def)
    with kv(2,3) show ?thesis unfolding sc by (force simp: f)
  next
    case False
    then have "\<forall>kv \<in> set ?m. is_stories (snd kv)" by blast
    from collect_dependencies_stories [OF this, of s]
    obtain deps where deps: "collect_dependencies s ?m = Inr deps" by blast
    from Cons.prems obtain y where
      y: "y \<in> set (matched_in absoluteImports s c)
            \<union> set (concat (map (\<lambda>sc. matched_in absoluteImports (fst sc) (snd sc)) caches))"
        "\<not> is_stories (snd y)"
      unfolding sc by auto
    have "y \<notin> set (matched_in absoluteImports s c)"
    proof
      assume "y \<in> set (matched_in absoluteImports s c)"
      from matched_in_elim [OF this] obtain kv where
        "kv \<in> set c" "matches_import absoluteImports (fst kv)" "y = ((s, fst kv), snd kv)"
        by blast
      with y(2) False show False by auto
    qed
    with y
    have "\<exists>x \<in> set (concat (map (\<lambda>sc. matched_in absoluteImports (fst sc) (snd sc)) caches)).
           \<not> is_stories (snd x)"
      by blast
    from Cons.IH [OF this] obtain x where
      x: "x \<in> set (concat (map (\<lambda>sc. matched_in absoluteImports (fst sc) (snd sc)) caches))"
        "\<not> is_stories (snd x)"
        "findDependencies_in absoluteImports caches
           = Inl (Error (''Unexpected dependency: '' @ to_string (snd x)))"
      by blast
    show ?thesis
    proof (intro bexI conjI)
      show "\<not> is_stories (snd x)" by (rule x(2))
      show "findDependencies_in absoluteImports (sc # caches)
              = Inl (Error (''Unexpected dependency: '' @ to_string (snd x)))"
        unfolding sc using deps x(3) by (simp add: f)
      show "x \<in> set (concat (map (\<lambda>sc. matched_in absoluteImports (fst sc) (snd sc))
                  (sc # caches)))"
        using x(1) by simp
    qed
  qed
qed

lemma findDependencies_in_cong:
  assumes "\<forall>sc \<in> set caches. \<forall>kv \<in> set (snd sc).
             import_found imports1 (fst kv) = import_found imports2 (fst kv)"
  shows "findDependencies_in imports1 caches = findDependencies_in imports2 caches"
  using assms
proof (induction caches)
  case Nil
  then show ?case by simp
next
  case (Cons sc caches)
  obtain s c where sc: "sc = (s, c)" by (cases sc)
  from Cons.prems have "filter (\<lambda>kv. import_found imports1 (fst kv)) c
      = filter (\<lambda>kv. import_found imports2 (fst kv)) c"
    by (intro filter_cong) (auto simp: sc)
  moreover from Cons have "findDependencies_in imports1 caches = findDependencies_in imports2 caches"
    by simp
  ultimately show ?case unfolding sc by (simp cong: sum.case_cong)
qed

lemma find_snoc:
  "find P (xs @ [e]) =
     (case find P xs of None \<Rightarrow> (if P e then Some e else None) | Some x \<Rightarrow> Some x)"
  by (induction xs) simp_all

lemma import_found_unmatched:
  assumes "\<not> prefix extra fileName"
  shows "import_found (absoluteImports @ [extra]) fileName = import_found absoluteImports fileName"
  using assms by (simp add: import_found_def find_snoc split: option.splits)

lemma storyFileNames_mem:
  assumes "sc \<in> set (specifierToCache g)" and "kv \<in> set (snd sc)"
  shows "fst kv \<in> set (storyFileNames g)"
  using assms by (auto simp: storyFileNames_def)

text \<open>
  Claim C9, as the code has it. Let no import be the empty string. A cached path
  matches when some import is a string prefix of it (the path starts with the import).
  If every cache entry at a matching path is a \<open>StoriesCacheEntry\<close>,
  \<open>findDependencies\<close> returns exactly those entries,
  cache by cache and in key order. If some cache entry at a matching path is of another
  kind (\<open>false\<close>, a docs entry or an error entry), it throws "Unexpected dependency".
  An import that is a prefix of no cached path changes nothing: no error is raised for
  it.
\<close>

theorem findDependencies_exact:
  assumes "[] \<notin> set absoluteImports"
  shows "((\<forall>x \<in> set (matched_slots g absoluteImports). is_stories (snd x)) \<longrightarrow>
            (\<exists>deps. findDependencies g absoluteImports = Inr deps
               \<and> map dependency_entry deps = matched_slots g absoluteImports))
       \<and> ((\<exists>x \<in> set (matched_slots g absoluteImports). \<not> is_stories (snd x)) \<longrightarrow>
            (\<exists>x \<in> set (matched_slots g absoluteImports). \<not> is_stories (snd x)
               \<and> findDependencies g absoluteImports
                    = Inl (Error (''Unexpected dependency: '' @ to_string (snd x)))))
       \<and> (\<forall>extra. (\<forall>p \<in> set (storyFileNames g). \<not> prefix extra p) \<longrightarrow>
            findDependencies g (absoluteImports @ [extra]) = findDependencies g absoluteImports)"
proof (intro conjI impI allI)
  assume "\<forall>x \<in> set (matched_slots g absoluteImports). is_stories (snd x)"
  then show "\<exists>deps. findDependencies g absoluteImports = Inr deps
               \<and> map dependency_entry deps = matched_slots g absoluteImports"
    unfolding matched_slots_def findDependencies_def
    by (rule findDependencies_in_stories [OF assms])
next
  assume "\<exists>x \<in> set (matched_slots g absoluteImports). \<not> is_stories (snd x)"
  then show "\<exists>x \<in> set (matched_slots g absoluteImports). \<not> is_stories (snd x)
               \<and> findDependencies g absoluteImports
                    = Inl (Error (''Unexpected dependency: '' @ to_string (snd x)))"
    unfolding matched_slots_def findDependencies_def
    by (rule findDependencies_in_other [OF assms])
next
  fix extra
  assume un: "\<forall>p \<in> set (storyFileNames g). \<not> prefix extra p"
  have "\<forall>sc \<in> set (specifierToCache g). \<forall>kv \<in> set (snd sc).
          import_found (absoluteImports @ [extra]) (fst kv) = import_found absoluteImports (fst kv)"
  proof (intro ballI)
    fix sc kv assume "sc \<in> set (specifierToCache g)" "kv \<in> set (snd sc)"
    then have "fst kv \<in> set (storyFileNames g)" by (rule storyFileNames_mem)
    with un have "\<not> prefix extra (fst kv)" by blast
    then show "import_found (absoluteImports @ [extra]) (fst kv)
                 = import_found absoluteImports (fst kv)"
      by (rule import_found_unmatched)
  qed
  then show "findDependencies g (absoluteImports @ [extra]) = findDependencies g absoluteImports"
    unfolding findDependencies_def by (rule findDependencies_in_cong)
qed

theorem findDependencies_exact_witness:
  "[] \<notin> set [''/w/A.stories'']
   \<and> matched_slots project_indexed [''/w/A.stories''] =
       [((0, ''/w/A.stories.js''),
         StoriesCacheEntry [story_one ''./A.stories.js''] [''/w/D.mdx''])]
   \<and> findDependencies project_indexed [''/w/A.stories''] =
       Inr [((0, ''/w/A.stories.js''), [story_one ''./A.stories.js''], [''/w/D.mdx''])]
   \<and> (\<exists>deps. findDependencies project_indexed [''/w/A.stories''] = Inr deps
         \<and> map dependency_entry deps = matched_slots project_indexed [''/w/A.stories''])
   \<and> storyFileNames project_indexed = [''/w/A.stories.js'', ''/w/D.mdx'']
   \<and> \<not> prefix ''react'' ''/w/A.stories.js'' \<and> \<not> prefix ''react'' ''/w/D.mdx''
   \<and> findDependencies project_indexed ([''/w/A.stories''] @ [''react''])
       = findDependencies project_indexed [''/w/A.stories'']
   \<and> [] \<notin> set [''/w/D'']
   \<and> matched_slots project_indexed [''/w/D''] =
       [((0, ''/w/D.mdx''),
         DocsCacheEntry \<lparr>entry_id = ''D--Docs'', title = ''D'', name = ''Docs'',
           importPath = ''./D.mdx'', tags = Some [''docs''], type = Docs,
           storiesImports = [''./A.stories.js'']\<rparr>)]
   \<and> (\<exists>x \<in> set (matched_slots project_indexed [''/w/D'']). \<not> is_stories (snd x)
         \<and> findDependencies project_indexed [''/w/D'']
              = Inl (Error (''Unexpected dependency: '' @ to_string (snd x))))
   \<and> findDependencies project_indexed [''/w/D'']
        = Inl (Error ''Unexpected dependency: [object Object]'')"
proof -
  have a1: "[] \<notin> set [''/w/A.stories'']" by simp
  have a2: "matched_slots project_indexed [''/w/A.stories''] =
       [((0, ''/w/A.stories.js''),
         StoriesCacheEntry [story_one ''./A.stories.js''] [''/w/D.mdx''])]"
    by code_simp
  have a3: "findDependencies project_indexed [''/w/A.stories''] =
       Inr [((0, ''/w/A.stories.js''), [story_one ''./A.stories.js''], [''/w/D.mdx''])]"
    by code_simp
  have a4: "storyFileNames project_indexed = [''/w/A.stories.js'', ''/w/D.mdx'']"
    by code_simp
  have a5: "\<not> prefix ''react'' ''/w/A.stories.js''" "\<not> prefix ''react'' ''/w/D.mdx''"
    by simp_all
  have b1: "[] \<notin> set [''/w/D'']" by simp
  have b2: "matched_slots project_indexed [''/w/D''] =
       [((0, ''/w/D.mdx''),
         DocsCacheEntry \<lparr>entry_id = ''D--Docs'', title = ''D'', name = ''Docs'',
           importPath = ''./D.mdx'', tags = Some [''docs''], type = Docs,
           storiesImports = [''./A.stories.js'']\<rparr>)]"
    by code_simp
  have b3: "findDependencies project_indexed [''/w/D'']
        = Inl (Error ''Unexpected dependency: [object Object]'')"
    by code_simp
  note A = findDependencies_exact [OF a1, of project_indexed]
  note B = findDependencies_exact [OF b1, of project_indexed]
  have "\<forall>x \<in> set (matched_slots project_indexed [''/w/A.stories'']). is_stories (snd x)"
    unfolding a2 by simp
  with A have a6: "\<exists>deps. findDependencies project_indexed [''/w/A.stories''] = Inr deps
         \<and> map dependency_entry deps = matched_slots project_indexed [''/w/A.stories'']"
    by blast
  have "\<forall>p \<in> set (storyFileNames project_indexed). \<not> prefix ''react'' p"
    unfolding a4 using a5 by simp
  with A have a7: "findDependencies project_indexed ([''/w/A.stories''] @ [''react''])
       = findDependencies project_indexed [''/w/A.stories'']"
    by blast
  have "\<exists>x \<in> set (matched_slots project_indexed [''/w/D'']). \<not> is_stories (snd x)"
    unfolding b2 by simp
  with B have b4: "\<exists>x \<in> set (matched_slots project_indexed [''/w/D'']). \<not> is_stories (snd x)
         \<and> findDependencies project_indexed [''/w/D'']
              = Inl (Error (''Unexpected dependency: '' @ to_string (snd x)))"
    by blast
  from a1 a2 a3 a6 a4 a5 a7 b1 b2 b4 b3 show ?thesis by blast
qed

text \<open>
  The claim fails in both of its parts that the statement above changes.
  \<^item> The direction: for the import \<open>/w/A.stories\<close> no cached path is a prefix of the
    import, and the entry of \<open>/w/A.stories.js\<close> is returned; for the import
    \<open>/w/A.stories.js.map\<close> the cached path \<open>/w/A.stories.js\<close> is a prefix of the
    import, and nothing is returned.
  \<^item> Every input list: with the empty string in front of \<open>/w/A.stories\<close>, the
    import found first for every path is the empty string, which is falsy, so no path is
    selected: nothing is returned and nothing is thrown, although \<open>/w/A.stories.js\<close>
    starts with the second import and \<open>/w/D.mdx\<close>, a docs entry, starts with the first.
\<close>

theorem findDependencies_exact_counterexample:
  "spec_selected_slots project_indexed [''/w/A.stories''] = []
   \<and> findDependencies project_indexed [''/w/A.stories''] =
       Inr [((0, ''/w/A.stories.js''), [story_one ''./A.stories.js''], [''/w/D.mdx''])]
   \<and> spec_selected_slots project_indexed [''/w/A.stories.js.map''] =
       [((0, ''/w/A.stories.js''),
         StoriesCacheEntry [story_one ''./A.stories.js''] [''/w/D.mdx''])]
   \<and> findDependencies project_indexed [''/w/A.stories.js.map''] = Inr []
   \<and> matched_slots project_indexed [[], ''/w/A.stories''] =
       [((0, ''/w/A.stories.js''),
         StoriesCacheEntry [story_one ''./A.stories.js''] [''/w/D.mdx'']),
        ((0, ''/w/D.mdx''),
         DocsCacheEntry \<lparr>entry_id = ''D--Docs'', title = ''D'', name = ''Docs'',
           importPath = ''./D.mdx'', tags = Some [''docs''], type = Docs,
           storiesImports = [''./A.stories.js'']\<rparr>)]
   \<and> findDependencies project_indexed [[], ''/w/A.stories''] = Inr []"
  by code_simp

section \<open>The memo fields\<close>

lemma fold_invariant:
  assumes "I g" and "\<And>x g. I g \<Longrightarrow> I (f x g)"
  shows "I (fold f xs g)"
  using assms(1) by (induction xs arbitrary: g) (simp_all add: assms(2))

lemma updateExtracted_invariant:
  assumes step: "\<And>s p g. I g \<Longrightarrow> I (updatePath env upd ow s p g)" and "I g"
  shows "I (snd (updateExtracted env upd ow g))"
proof -
  have spec: "I (snd (updateSpecifier env upd ow s rg))" if "I (snd rg)" for s rg
    using that
    by (auto simp: updateSpecifier_def split: option.splits sum.splits
        intro: fold_invariant [where I = I] step)
  have "I (snd (fold (updateSpecifier env upd ow) ss rg))" if "I (snd rg)" for ss rg
    using that by (induction ss arbitrary: rg) (simp_all add: spec)
  then show ?thesis using assms(2) by (simp add: updateExtracted_def)
qed

lemma memo_slot_set [simp]: "memo (slot_set g s p e) = memo g"
  by (simp add: memo_def slot_set_def)

lemma memo_slot_delete [simp]: "memo (slot_delete g s p) = memo g"
  by (simp add: memo_def slot_delete_def)

lemma memo_reset_dependents [simp]: "memo (reset_dependents ds g) = memo g"
  by (simp add: memo_def reset_dependents_def)

lemma memo_extractor_calls [simp]: "memo (g\<lparr>extractor_calls := cs\<rparr>) = memo g"
  by (simp add: memo_def)

lemma memo_clear_memo [simp]: "memo (clear_memo g) = (None, None)"
  by (simp add: memo_def clear_memo_def)

lemma memo_push_dependent [simp]: "memo (push_dependent p dep g) = memo g"
  by (simp add: push_dependent_def split: option.splits cache_entry.splits)

lemma memo_remove_dependent [simp]: "memo (remove_dependent p dep g) = memo g"
  by (simp add: remove_dependent_def split: option.splits cache_entry.splits)

lemma memo_fold_push [simp]: "memo (fold (push_dependent p) deps g) = memo g"
  by (induction deps arbitrary: g) simp_all

lemma memo_fold_remove [simp]: "memo (fold (remove_dependent p) deps g) = memo g"
  by (induction deps arbitrary: g) simp_all

lemma memo_extractStories: "memo (snd (extractStories env s p g)) = memo g"
  by (simp add: extractStories_def Let_def split: option.splits sum.splits)

lemma memo_stories_updater: "memo (snd (stories_updater env s p g)) = memo g"
  by (simp add: stories_updater_def memo_extractStories)

lemma memo_finish_docs: "memo (snd (finish_docs env s p ip res deps csfEntry g)) = memo g"
  by (simp add: finish_docs_def Let_def split: sum.splits)

lemma memo_extractDocs: "memo (snd (extractDocs env s p g)) = memo g"
  by (simp add: extractDocs_def Let_def memo_finish_docs split: sum.splits)

lemma memo_updatePath:
  assumes "\<And>s p g. memo (snd (upd s p g)) = memo g"
  shows "memo (updatePath env upd ow s p g) = memo g"
proof (cases "upd s p g")
  case (Pair r g1)
  with assms [of s p g] have "memo g1 = memo g" by simp
  with Pair show ?thesis
    by (simp add: updatePath_def Let_def split: sum.splits)
qed

lemma memo_updateExtracted:
  assumes "\<And>s p g. memo (snd (upd s p g)) = memo g"
  shows "memo (snd (updateExtracted env upd ow g)) = memo g"
proof -
  have "memo (snd (updateExtracted env upd ow g)) = memo g"
    by (rule updateExtracted_invariant [where I = "\<lambda>h. memo h = memo g"])
      (simp_all add: memo_updatePath [OF assms])
  then show ?thesis .
qed

lemma memo_ensureExtracted: "memo (snd (ensureExtracted env g)) = memo g"
proof -
  let ?g1 = "snd (updateExtracted env (stories_updater env) False g)"
  let ?g2 = "snd (updateExtracted env (extractDocs env) False ?g1)"
  have 1: "memo ?g1 = memo g" by (rule memo_updateExtracted) (rule memo_stories_updater)
  have 2: "memo ?g2 = memo ?g1" by (rule memo_updateExtracted) (rule memo_extractDocs)
  have "snd (ensureExtracted env g) = ?g1 \<or> snd (ensureExtracted env g) = ?g2"
    by (auto simp: ensureExtracted_def split: prod.splits sum.splits)
  with 1 2 show ?thesis by auto
qed

lemma memo_initialize: "memo (snd (initialize env g)) = memo g"
proof -
  let ?g1 = "g\<lparr>specifierToCache :=
                   fold (\<lambda>s m. dict_set m s (initial_cache env s)) (specifiers env)
                     (specifierToCache g)\<rparr>"
  have "snd (initialize env g) = snd (ensureExtracted env ?g1)"
    by (simp add: initialize_def Let_def split: prod.splits sum.splits)
  moreover have "memo ?g1 = memo g" by (simp add: memo_def)
  ultimately show ?thesis by (simp add: memo_ensureExtracted)
qed

lemma memo_getIndex:
  assumes "lastIndex g = None \<or> lastError g = None"
  shows "lastIndex (snd (getIndex env g)) = None \<or> lastError (snd (getIndex env g)) = None"
proof (cases "lastIndex g")
  case (Some idx)
  with assms show ?thesis by (simp add: getIndex_def)
next
  case None
  show ?thesis
  proof (cases "lastError g")
    case (Some err)
    with None show ?thesis by (simp add: getIndex_def)
  next
    case e: None
    obtain r g' where ens: "ensureExtracted env g = (r, g')" by (cases "ensureExtracted env g")
    have "memo g' = memo g" using memo_ensureExtracted [of env g] ens by simp
    with None e have m: "lastIndex g' = None" "lastError g' = None" by (simp_all add: memo_def)
    show ?thesis
      using None e ens m
      by (simp add: getIndex_def split: sum.splits)
  qed
qed

lemma invalidate_returns:
  assumes "invalidate env g s ip removed = (Inr u, g')"
  shows "memo g' = (None, None)"
  using assms
  by (auto simp: invalidate_def Let_def split: option.splits cache_entry.splits sum.splits
      if_splits)

lemma invalidate_memo:
  "memo (snd (invalidate env g s ip removed)) = memo g
   \<or> memo (snd (invalidate env g s ip removed)) = (None, None)"
  by (auto simp: invalidate_def Let_def split: option.splits cache_entry.splits sum.splits)

lemma reachable_memo:
  assumes "reachable_in_turn g"
  shows "lastIndex g = None \<or> lastError g = None"
  using assms
proof (induction rule: reachable_in_turn.induct)
  case reachable_new
  then show ?case by (simp add: new_generator_def)
next
  case (reachable_initialize g env)
  then show ?case using memo_initialize [of env g] by (auto simp: memo_def)
next
  case (reachable_getIndex g env)
  then show ?case by (simp add: memo_getIndex)
next
  case (reachable_invalidate g env s ip removed)
  then show ?case using invalidate_memo [of env g s ip removed] by (auto simp: memo_def)
qed

lemma reachable_project_indexed: "reachable_in_turn project_indexed"
  unfolding project_indexed_def by (intro reachable_in_turn.intros)

lemma reachable_project_broken: "reachable_in_turn project_broken"
  unfolding project_broken_def by (intro reachable_in_turn.intros reachable_project_indexed)

lemma invalidate_throws_unchanged:
  assumes "invalidate env g s ip removed = (Inl e, g')"
  shows "g' = g"
  using assms
  by (auto simp: invalidate_def Let_def split: option.splits cache_entry.splits sum.splits
      if_splits)

text \<open>
  When the calls do not overlap, at most one of \<open>lastIndex\<close> and \<open>lastError\<close> is
  set in every state, and a call of \<open>invalidate\<close> that returns leaves both unset.
\<close>

lemma memo_exclusive_in_turn:
  assumes "reachable_in_turn g"
  shows "(lastIndex g = None \<or> lastError g = None)
       \<and> (\<forall>env s ip removed g'. invalidate env g s ip removed = (Inr (), g') \<longrightarrow>
            lastIndex g' = None \<and> lastError g' = None)"
proof (intro conjI allI impI)
  from assms show "lastIndex g = None \<or> lastError g = None" by (rule reachable_memo)
next
  fix env s ip removed g'
  assume "invalidate env g s ip removed = (Inr (), g')"
  then have "memo g' = (None, None)" by (rule invalidate_returns)
  then show "lastIndex g' = None" "lastError g' = None" by (simp_all add: memo_def)
qed

text \<open>
  A call of \<open>getIndex\<close> that nothing overlaps is its first part followed, if it was
  suspended, by its second part; so the states reached in turn are among those reached
  with overlapping calls.
\<close>

lemma getIndex_phases:
  "getIndex env g =
     (case getIndex_to_sort env g of
        (Returned r, g') \<Rightarrow> (r, g')
      | (AwaitingSort es, g') \<Rightarrow> getIndex_from_sort env es g')"
  by (auto simp: getIndex_def getIndex_to_sort_def getIndex_from_sort_def build_index_def
      Let_def split: option.splits prod.splits sum.splits)

lemma in_turn_overlapping:
  assumes "reachable_in_turn g"
  shows "reachable_overlapping g []"
  using assms
proof (induction rule: reachable_in_turn.induct)
  case reachable_new
  show ?case by (rule overlapping_new)
next
  case (reachable_initialize g env)
  from reachable_initialize.IH show ?case by (rule overlapping_initialize)
next
  case (reachable_invalidate g env s ip removed)
  from reachable_invalidate.IH show ?case by (rule overlapping_invalidate)
next
  case (reachable_getIndex g env)
  obtain pr g' where first: "getIndex_to_sort env g = (pr, g')"
    by (cases "getIndex_to_sort env g")
  show ?case
  proof (cases pr)
    case (Returned r)
    with first have "snd (getIndex env g) = g'" by (simp add: getIndex_phases)
    moreover from reachable_getIndex.IH first have "reachable_overlapping g' []"
      unfolding Returned by (rule overlapping_returns)
    ultimately show ?thesis by simp
  next
    case (AwaitingSort es)
    with first have "snd (getIndex env g) = snd (getIndex_from_sort env es g')"
      by (simp add: getIndex_phases)
    moreover from reachable_getIndex.IH first have "reachable_overlapping g' [es]"
      unfolding AwaitingSort by (rule overlapping_suspends)
    then have "reachable_overlapping (snd (getIndex_from_sort env es g')) (remove1 es [es])"
      by (rule overlapping_resumes) simp
    ultimately show ?thesis by simp
  qed
qed

lemma overlapping_project_raced: "reachable_overlapping project_raced []"
proof -
  have 0: "reachable_overlapping project_initialized []"
    unfolding project_initialized_def by (intro reachable_overlapping.intros(1,2))
  have "getIndex_to_sort project project_initialized
          = (AwaitingSort project_sorting, project_initialized)"
    by code_simp
  with 0 have 1: "reachable_overlapping project_initialized [project_sorting]"
    by (rule overlapping_suspends)
  let ?g = "snd (invalidate project project_initialized 0 ''./A.stories.jsx'' False)"
  from 1 have 2: "reachable_overlapping ?g [project_sorting]"
    by (rule overlapping_invalidate)
  have "getIndex_to_sort project ?g =
          (Returned (Inl (MultipleIndexingError
             [IndexingError ''No matching story indexer found for /w/A.stories.jsx''
                [''./A.stories.jsx'']])),
           project_second_call)"
    by code_simp
  with 2 have 3: "reachable_overlapping project_second_call [project_sorting]"
    by (rule overlapping_returns)
  then have "reachable_overlapping
      (snd (getIndex_from_sort project project_sorting project_second_call))
      (remove1 project_sorting [project_sorting])"
    by (rule overlapping_resumes) simp
  then show ?thesis by (simp add: project_raced_def)
qed

text \<open>
  Claim C7, at two failing inputs.
  \<^item> Two calls of \<open>getIndex\<close> overlap. The first is suspended at the sort when
    \<open>A.stories.jsx\<close> is added and a second call throws and memoizes its error; the
    first call then resumes and memoizes its index. Both \<open>lastIndex\<close> and
    \<open>lastError\<close> are set.
  \<^item> A call of \<open>invalidate\<close> throws. \<open>A.stories.jsx\<close> is added and fails to index,
    so \<open>getIndex\<close> memoizes an error; when \<open>D.mdx\<close> is then removed,
    \<open>findDependencies\<close> meets the error entry of \<open>A.stories.jsx\<close>, whose path starts
    with the import path of \<open>A.stories.js\<close>, and throws before the memo fields are
    reset: the file is deleted and the memoized error stays.
\<close>

theorem memo_fields_failing_runs:
  "reachable_overlapping project_raced []
   \<and> lastIndex project_raced =
       Some \<lparr>index_version = 4,
             index_entries = map (\<lambda>kv. (fst kv, IndexEntry (snd kv))) project_sorting\<rparr>
   \<and> lastError project_raced =
       Some (MultipleIndexingError
         [IndexingError ''No matching story indexer found for /w/A.stories.jsx''
            [''./A.stories.jsx'']])
   \<and> reachable_overlapping project_broken []
   \<and> lastError project_broken =
       Some (MultipleIndexingError
         [IndexingError ''No matching story indexer found for /w/A.stories.jsx''
            [''./A.stories.jsx'']])
   \<and> invalidate project project_broken 0 ''./D.mdx'' True =
       (Inl (Error ''Unexpected dependency: [object Object]''), project_broken)"
proof -
  have i: "lastIndex project_raced =
       Some \<lparr>index_version = 4,
             index_entries = map (\<lambda>kv. (fst kv, IndexEntry (snd kv))) project_sorting\<rparr>"
    by code_simp
  have r: "lastError project_raced =
       Some (MultipleIndexingError
         [IndexingError ''No matching story indexer found for /w/A.stories.jsx''
            [''./A.stories.jsx'']])"
    by code_simp
  have b: "reachable_overlapping project_broken []"
    using reachable_project_broken by (rule in_turn_overlapping)
  have e: "lastError project_broken =
       Some (MultipleIndexingError
         [IndexingError ''No matching story indexer found for /w/A.stories.jsx''
            [''./A.stories.jsx'']])"
    by code_simp
  have t: "invalidate project project_broken 0 ''./D.mdx'' True =
       (Inl (Error ''Unexpected dependency: [object Object]''), project_broken)"
    by code_simp
  from overlapping_project_raced i r b e t show ?thesis by simp
qed

section \<open>The sweeps settle\<close>

text \<open>
  Once every specifier has a cache, which \<open>initialize\<close> sees to, the two sweeps and
  the final \<open>flatMap\<close> of \<open>ensureExtracted\<close> do not throw: extraction failures
  end up in the cache.
\<close>

lemma fold_invariant_set:
  assumes "I g" and "\<And>x g. x \<in> set xs \<Longrightarrow> I g \<Longrightarrow> I (f x g)"
  shows "I (fold f xs g)"
  using assms by (induction xs arbitrary: g) simp_all

lemma cache_keys_slot_set [simp]: "cache_keys (slot_set g s p e) = cache_keys g"
  by (simp add: cache_keys_def slot_set_def comp_def)

lemma cache_keys_extractor_calls [simp]: "cache_keys (g\<lparr>extractor_calls := cs\<rparr>) = cache_keys g"
  by (simp add: cache_keys_def)

lemma cache_keys_push_dependent [simp]: "cache_keys (push_dependent p dep g) = cache_keys g"
  by (simp add: push_dependent_def split: option.splits cache_entry.splits)

lemma cache_keys_fold_push [simp]: "cache_keys (fold (push_dependent p) deps g) = cache_keys g"
  by (induction deps arbitrary: g) simp_all

lemma cache_keys_extractStories: "cache_keys (snd (extractStories env s p g)) = cache_keys g"
  by (simp add: extractStories_def Let_def split: option.splits sum.splits)

lemma cache_keys_stories_updater: "cache_keys (snd (stories_updater env s p g)) = cache_keys g"
  by (simp add: stories_updater_def cache_keys_extractStories)

lemma cache_keys_finish_docs:
  "cache_keys (snd (finish_docs env s p ip res deps csfEntry g)) = cache_keys g"
  by (simp add: finish_docs_def Let_def split: sum.splits)

lemma cache_keys_extractDocs: "cache_keys (snd (extractDocs env s p g)) = cache_keys g"
  by (simp add: extractDocs_def Let_def cache_keys_finish_docs split: sum.splits)

lemma cache_keys_updatePath:
  assumes "\<And>s p g. cache_keys (snd (upd s p g)) = cache_keys g"
  shows "cache_keys (updatePath env upd ow s p g) = cache_keys g"
proof (cases "upd s p g")
  case (Pair r g1)
  with assms [of s p g] have "cache_keys g1 = cache_keys g" by simp
  with Pair show ?thesis
    by (simp add: updatePath_def Let_def split: sum.splits)
qed

lemma has_cache_iff: "map_of (specifierToCache g) s \<noteq> None \<longleftrightarrow> s \<in> set (cache_keys g)"
  by (simp add: cache_keys_def map_of_eq_None_iff)

lemma updateExtracted_settles:
  assumes upd: "\<And>s p g. cache_keys (snd (upd s p g)) = cache_keys g"
    and init: "set (specifiers env) \<subseteq> set (cache_keys g)"
  shows "fst (updateExtracted env upd ow g) = Inr ()
         \<and> cache_keys (snd (updateExtracted env upd ow g)) = cache_keys g"
proof -
  let ?I = "\<lambda>rg :: (js_error + unit) \<times> generator.
              fst rg = Inr () \<and> cache_keys (snd rg) = cache_keys g"
  have "?I (fold (updateSpecifier env upd ow) (specifiers env) (Inr (), g))"
  proof (rule fold_invariant_set [where I = ?I])
    show "?I (Inr (), g)" by simp
  next
    fix s rg
    assume s: "s \<in> set (specifiers env)" and I: "?I rg"
    from s init I have "s \<in> set (cache_keys (snd rg))" by auto
    then obtain c where c: "map_of (specifierToCache (snd rg)) s = Some c"
      using has_cache_iff [of "snd rg" s] by auto
    have "cache_keys (fold (updatePath env upd ow s) (map fst c) (snd rg)) = cache_keys g"
      by (rule fold_invariant [where I = "\<lambda>h. cache_keys h = cache_keys g"])
        (simp_all add: I cache_keys_updatePath [OF upd])
    with c I show "?I (updateSpecifier env upd ow s rg)"
      by (simp add: updateSpecifier_def)
  qed
  then show ?thesis by (simp add: updateExtracted_def)
qed

lemma flatten_caches_settles:
  assumes "set ss \<subseteq> set (cache_keys g)"
  shows "\<exists>l. flatten_caches g ss = Inr l"
  using assms
proof (induction ss)
  case Nil
  then show ?case by simp
next
  case (Cons s ss)
  then obtain l where l: "flatten_caches g ss = Inr l" by auto
  from Cons.prems obtain c where "map_of (specifierToCache g) s = Some c"
    using has_cache_iff [of g s] by auto
  with l show ?case by simp
qed

lemma ensureExtracted_settles:
  assumes "set (specifiers env) \<subseteq> set (cache_keys g)"
  shows "\<exists>l g'. ensureExtracted env g = (Inr l, g') \<and> cache_keys g' = cache_keys g"
proof -
  let ?r1 = "updateExtracted env (stories_updater env) False g"
  let ?r2 = "updateExtracted env (extractDocs env) False (snd ?r1)"
  have 1: "fst ?r1 = Inr ()" "cache_keys (snd ?r1) = cache_keys g"
    using updateExtracted_settles [OF cache_keys_stories_updater assms] by simp_all
  from assms 1(2) have "set (specifiers env) \<subseteq> set (cache_keys (snd ?r1))" by simp
  from updateExtracted_settles [OF cache_keys_extractDocs this]
  have 2: "fst ?r2 = Inr ()" "cache_keys (snd ?r2) = cache_keys g"
    using 1(2) by simp_all
  from assms 2(2) have "set (specifiers env) \<subseteq> set (cache_keys (snd ?r2))" by simp
  from flatten_caches_settles [OF this] obtain l where
    l: "flatten_caches (snd ?r2) (specifiers env) = Inr l" by blast
  obtain g1 where r1: "?r1 = (Inr (), g1)" using 1(1) by (cases ?r1) auto
  obtain g2 where r2: "updateExtracted env (extractDocs env) False g1 = (Inr (), g2)"
    using 2(1) r1 by (cases "updateExtracted env (extractDocs env) False g1") auto
  have "ensureExtracted env g = (Inr l, g2)"
    using l by (simp add: ensureExtracted_def r1 r2)
  with 2(2) r1 r2 show ?thesis by simp
qed

lemma dict_set_keys: "fst ` set (dict_set d k v) = insert k (fst ` set d)"
  by (induction d k v rule: dict_set.induct) auto

lemma initialize_caches:
  "set (specifiers env) \<subseteq> set (cache_keys (snd (initialize env g)))"
proof -
  let ?m = "fold (\<lambda>s m. dict_set m s (initial_cache env s)) (specifiers env)
              (specifierToCache g)"
  let ?g1 = "g\<lparr>specifierToCache := ?m\<rparr>"
  have "fst ` set (fold (\<lambda>s m. dict_set m s (initial_cache env s)) ss m)
          = fst ` set m \<union> set ss" for ss m
    by (induction ss arbitrary: m) (simp_all add: dict_set_keys)
  then have k: "set (specifiers env) \<subseteq> set (cache_keys ?g1)"
    by (simp add: cache_keys_def)
  from ensureExtracted_settles [OF k] obtain l g' where
    "ensureExtracted env ?g1 = (Inr l, g')" "cache_keys g' = cache_keys ?g1"
    by blast
  moreover from this(1) have "snd (initialize env g) = g'"
    by (simp add: initialize_def Let_def)
  ultimately show ?thesis using k by simp
qed

section \<open>Errors raised by getIndex\<close>

lemma ensureExtracted_flatten:
  assumes "ensureExtracted env g = (Inr l, g')"
  shows "flatten_caches g' (specifiers env) = Inr l"
  using assms
  by (auto simp: ensureExtracted_def split: prod.splits sum.splits)

lemma error_entries_append:
  "error_entries (xs @ ys) = error_entries xs @ error_entries ys"
  by (induction xs rule: error_entries.induct) simp_all

lemma error_entries_flatten_entry:
  "error_entries (flatten_entry e) = error_of_entry e"
proof (cases e)
  case (StoriesCacheEntry es ds)
  have "error_entries (map Inr es) = []" by (induction es) simp_all
  with StoriesCacheEntry show ?thesis by simp
qed simp_all

lemma error_entries_cache:
  "error_entries (concat (map (\<lambda>kv. flatten_entry (snd kv)) c))
     = concat (map (\<lambda>kv. error_of_entry (snd kv)) c)"
  by (induction c) (simp_all add: error_entries_append error_entries_flatten_entry)

lemma error_entries_flatten_caches:
  assumes "flatten_caches g ss = Inr l"
  shows "error_entries l = cache_errors g ss"
  using assms
proof (induction ss arbitrary: l)
  case Nil
  then show ?case by simp
next
  case (Cons s ss)
  from Cons.prems obtain c l' where
    c: "map_of (specifierToCache g) s = Some c" and
    l': "flatten_caches g ss = Inr l'" and
    l: "l = concat (map (\<lambda>kv. flatten_entry (snd kv)) c) @ l'"
    by (auto split: option.splits sum.splits)
  from Cons.IH [OF l'] show ?case
    by (simp add: l c error_entries_append error_entries_cache)
qed

lemma cache_errors_mem:
  assumes "s \<in> set ss" and "slot_get g s p = Some (ErrorEntry err)"
  shows "err \<in> set (cache_errors g ss)"
  using assms(1)
proof (induction ss)
  case Nil
  then show ?case by simp
next
  case (Cons s' ss)
  show ?case
  proof (cases "s' = s")
    case True
    from assms(2) obtain c where c: "map_of (specifierToCache g) s = Some c"
      "map_of c p = Some (ErrorEntry err)"
      by (auto simp: slot_get_def split: option.splits)
    from c(2) have "(p, ErrorEntry err) \<in> set c" by (rule map_of_SomeD)
    then have "err \<in> set (concat (map (\<lambda>kv. error_of_entry (snd kv)) c))" by force
    with True c(1) show ?thesis by simp
  next
    case False
    with Cons show ?thesis by simp
  qed
qed

lemma getIndex_extraction_errors:
  assumes "lastIndex g = None" and "lastError g = None"
    and "ensureExtracted env g = (Inr l, g')"
    and "cache_errors g' (specifiers env) \<noteq> []"
  shows "getIndex env g =
           (Inl (MultipleIndexingError (cache_errors g' (specifiers env))),
            g'\<lparr>lastError := Some (MultipleIndexingError (cache_errors g' (specifiers env)))\<rparr>)"
proof -
  have "error_entries l = cache_errors g' (specifiers env)"
    using assms(3) by (intro error_entries_flatten_caches ensureExtracted_flatten)
  with assms(4) have "build_index env g' l
      = Inl (MultipleIndexingError (cache_errors g' (specifiers env)))"
    by (simp add: build_index_def)
  with assms(1-3) show ?thesis by (simp add: getIndex_def)
qed

lemma getIndex_duplicate_errors:
  assumes "lastIndex g = None" and "lastError g = None"
    and "ensureExtracted env g = (Inr l, g')"
    and "cache_errors g' (specifiers env) = []"
    and "duplicate_errors (options env) (index_entries_of l) \<noteq> []"
  shows "getIndex env g =
           (Inl (MultipleIndexingError (duplicate_errors (options env) (index_entries_of l))),
            g'\<lparr>lastError :=
                 Some (MultipleIndexingError
                         (duplicate_errors (options env) (index_entries_of l)))\<rparr>)"
proof -
  have "error_entries l = []"
    using assms(3,4) error_entries_flatten_caches [OF ensureExtracted_flatten] by simp
  with assms(5) have "build_index env g' l
      = Inl (MultipleIndexingError (duplicate_errors (options env) (index_entries_of l)))"
    by (simp add: build_index_def duplicate_errors_def Let_def)
  with assms(1-3) show ?thesis by (simp add: getIndex_def)
qed

lemma duplicate_errors_snoc:
  "duplicate_errors opts (es @ [e]) = duplicate_errors opts es @ conflict_at opts es e"
  by (simp add: duplicate_errors_def resolve_duplicates_def conflict_at_def add_entry_def
      split: option.splits sum.splits)

lemma duplicate_errors_all:
  "duplicate_errors opts es =
     concat (map (\<lambda>i. conflict_at opts (take i es) (es ! i)) [0..<length es])"
proof (induction es rule: rev_induct)
  case Nil
  then show ?case by (simp add: duplicate_errors_def resolve_duplicates_def)
next
  case (snoc e es)
  have old: "map (\<lambda>i. conflict_at opts (take i (es @ [e])) ((es @ [e]) ! i)) [0..<length es]
      = map (\<lambda>i. conflict_at opts (take i es) (es ! i)) [0..<length es]"
    by (rule map_cong) (simp_all add: nth_append)
  have "concat (map (\<lambda>i. conflict_at opts (take i (es @ [e])) ((es @ [e]) ! i))
                  [0..<length (es @ [e])])
      = concat (map (\<lambda>i. conflict_at opts (take i (es @ [e])) ((es @ [e]) ! i))
                  [0..<length es])
        @ conflict_at opts (take (length es) (es @ [e])) ((es @ [e]) ! length es)"
    by simp
  also have "\<dots> = concat (map (\<lambda>i. conflict_at opts (take i es) (es ! i)) [0..<length es])
        @ conflict_at opts es e"
    unfolding old by simp
  also have "\<dots> = duplicate_errors opts (es @ [e])"
    by (simp only: duplicate_errors_snoc snoc.IH)
  finally show ?case by simp
qed

lemma getIndex_aggregates_settled:
  assumes "lastIndex g = None" and "lastError g = None"
    and "ensureExtracted env g = (Inr storiesList, g')"
  shows "(\<forall>s p err. s \<in> set (specifiers env) \<and> slot_get g' s p = Some (ErrorEntry err) \<longrightarrow>
            err \<in> set (cache_errors g' (specifiers env))
            \<and> getIndex env g =
                (Inl (MultipleIndexingError (cache_errors g' (specifiers env))),
                 g'\<lparr>lastError :=
                      Some (MultipleIndexingError (cache_errors g' (specifiers env)))\<rparr>))
       \<and> (cache_errors g' (specifiers env) = []
            \<and> duplicate_errors (options env) (index_entries_of storiesList) \<noteq> [] \<longrightarrow>
            getIndex env g =
              (Inl (MultipleIndexingError
                      (duplicate_errors (options env) (index_entries_of storiesList))),
               g'\<lparr>lastError :=
                    Some (MultipleIndexingError
                            (duplicate_errors (options env) (index_entries_of storiesList)))\<rparr>))
       \<and> duplicate_errors (options env) (index_entries_of storiesList) =
            concat (map (\<lambda>i. conflict_at (options env) (take i (index_entries_of storiesList))
                               (index_entries_of storiesList ! i))
                      [0..<length (index_entries_of storiesList)])"
proof (intro conjI allI impI)
  fix s p err
  assume a: "s \<in> set (specifiers env) \<and> slot_get g' s p = Some (ErrorEntry err)"
  then show mem: "err \<in> set (cache_errors g' (specifiers env))"
    by (blast intro: cache_errors_mem)
  then have "cache_errors g' (specifiers env) \<noteq> []" by auto
  with assms show "getIndex env g =
                (Inl (MultipleIndexingError (cache_errors g' (specifiers env))),
                 g'\<lparr>lastError :=
                      Some (MultipleIndexingError (cache_errors g' (specifiers env)))\<rparr>)"
    by (rule getIndex_extraction_errors)
next
  assume "cache_errors g' (specifiers env) = []
            \<and> duplicate_errors (options env) (index_entries_of storiesList) \<noteq> []"
  with assms show "getIndex env g =
              (Inl (MultipleIndexingError
                      (duplicate_errors (options env) (index_entries_of storiesList))),
               g'\<lparr>lastError :=
                    Some (MultipleIndexingError
                            (duplicate_errors (options env) (index_entries_of storiesList)))\<rparr>)"
    by (simp add: getIndex_duplicate_errors)
next
  show "duplicate_errors (options env) (index_entries_of storiesList) =
            concat (map (\<lambda>i. conflict_at (options env) (take i (index_entries_of storiesList))
                               (index_entries_of storiesList ! i))
                      [0..<length (index_entries_of storiesList)])"
    by (rule duplicate_errors_all)
qed

text \<open>
  Claim C3. Consider a call of \<open>getIndex\<close> that extracts: nothing is memoized, and every
  specifier has its cache. The extraction sweeps settle, with an entry list
  \<open>storiesList\<close> and a generator \<open>g'\<close>, and:
  \<^item> If some cache entry of a specifier is an \<open>ErrorEntry\<close>, the call throws one
    \<open>MultipleIndexingError\<close> that holds the errors of all \<open>ErrorEntry\<close> cache
    entries (and so the one of that entry), whatever duplicates the entries contain, and
    memoizes it.
  \<^item> If no cache entry is an \<open>ErrorEntry\<close> and duplicate resolution raised an error,
    the call throws one \<open>MultipleIndexingError\<close> that holds all duplicate errors, and
    memoizes it.
  \<^item> The duplicate errors are those of every position of the entry list: each entry is
    resolved against the index built from all entries before it, conflicting or not, and
    contributes its error if it raises one.
\<close>

theorem getIndex_aggregates_errors:
  assumes "lastIndex g = None" and "lastError g = None"
    and "set (specifiers env) \<subseteq> set (cache_keys g)"
  shows "\<exists>storiesList g'. ensureExtracted env g = (Inr storiesList, g')
       \<and> (\<forall>s p err. s \<in> set (specifiers env) \<and> slot_get g' s p = Some (ErrorEntry err) \<longrightarrow>
            err \<in> set (cache_errors g' (specifiers env))
            \<and> getIndex env g =
                (Inl (MultipleIndexingError (cache_errors g' (specifiers env))),
                 g'\<lparr>lastError :=
                      Some (MultipleIndexingError (cache_errors g' (specifiers env)))\<rparr>))
       \<and> (cache_errors g' (specifiers env) = []
            \<and> duplicate_errors (options env) (index_entries_of storiesList) \<noteq> [] \<longrightarrow>
            getIndex env g =
              (Inl (MultipleIndexingError
                      (duplicate_errors (options env) (index_entries_of storiesList))),
               g'\<lparr>lastError :=
                    Some (MultipleIndexingError
                            (duplicate_errors (options env) (index_entries_of storiesList)))\<rparr>))
       \<and> duplicate_errors (options env) (index_entries_of storiesList) =
            concat (map (\<lambda>i. conflict_at (options env) (take i (index_entries_of storiesList))
                               (index_entries_of storiesList ! i))
                      [0..<length (index_entries_of storiesList)])"
proof -
  from ensureExtracted_settles [OF assms(3)] obtain l g' where
    e: "ensureExtracted env g = (Inr l, g')" by blast
  show ?thesis
    using getIndex_aggregates_settled [OF assms(1,2) e] e
    by (intro exI [of _ l] exI [of _ g']) simp
qed

theorem getIndex_aggregates_errors_witness:
  "lastIndex conflict_initialized = None \<and> lastError conflict_initialized = None
   \<and> set (specifiers conflict_project) \<subseteq> set (cache_keys conflict_initialized)
   \<and> ensureExtracted conflict_project conflict_initialized =
       (Inr [Inr (story_one ''./A.stories.js''), Inr (story_one ''./B.stories.js''),
             Inr (story_one ''./C.stories.js''), Inl no_indexer_error],
        conflict_initialized)
   \<and> 0 \<in> set (specifiers conflict_project)
   \<and> slot_get conflict_initialized 0 ''/w/E.stories.jsx'' = Some (ErrorEntry no_indexer_error)
   \<and> getIndex conflict_project conflict_initialized =
       (Inl (MultipleIndexingError [no_indexer_error]),
        conflict_initialized\<lparr>lastError := Some (MultipleIndexingError [no_indexer_error])\<rparr>)
   \<and> lastIndex conflict_without_E = None \<and> lastError conflict_without_E = None
   \<and> set (specifiers conflict_project) \<subseteq> set (cache_keys conflict_without_E)
   \<and> ensureExtracted conflict_project conflict_without_E =
       (Inr [Inr (story_one ''./A.stories.js''), Inr (story_one ''./B.stories.js''),
             Inr (story_one ''./C.stories.js'')],
        conflict_without_E)
   \<and> cache_errors conflict_without_E (specifiers conflict_project) = []
   \<and> getIndex conflict_project conflict_without_E =
       (Inl (MultipleIndexingError
          [IndexingError ''Duplicate stories with id: a--one''
             [''./A.stories.js'', ''./B.stories.js''],
           IndexingError ''Duplicate stories with id: a--one''
             [''./A.stories.js'', ''./C.stories.js'']]),
        conflict_without_E\<lparr>lastError := Some (MultipleIndexingError
          [IndexingError ''Duplicate stories with id: a--one''
             [''./A.stories.js'', ''./B.stories.js''],
           IndexingError ''Duplicate stories with id: a--one''
             [''./A.stories.js'', ''./C.stories.js'']])\<rparr>)"
proof -
  let ?L1 = "[Inr (story_one ''./A.stories.js''), Inr (story_one ''./B.stories.js''),
              Inr (story_one ''./C.stories.js''), Inl no_indexer_error]"
  let ?L2 = "[Inr (story_one ''./A.stories.js''), Inr (story_one ''./B.stories.js''),
              Inr (story_one ''./C.stories.js'')]"
  have a1: "lastIndex conflict_initialized = None" by code_simp
  have a2: "lastError conflict_initialized = None" by code_simp
  have a0: "set (specifiers conflict_project) \<subseteq> set (cache_keys conflict_initialized)"
    by code_simp
  have a3: "ensureExtracted conflict_project conflict_initialized = (Inr ?L1, conflict_initialized)"
    by code_simp
  have a4: "0 \<in> set (specifiers conflict_project)"
    by (simp add: conflict_project_def project_def)
  have a5: "slot_get conflict_initialized 0 ''/w/E.stories.jsx'' = Some (ErrorEntry no_indexer_error)"
    by code_simp
  have a6: "cache_errors conflict_initialized (specifiers conflict_project) = [no_indexer_error]"
    by code_simp
  have b1: "lastIndex conflict_without_E = None" by code_simp
  have b2: "lastError conflict_without_E = None" by code_simp
  have b0: "set (specifiers conflict_project) \<subseteq> set (cache_keys conflict_without_E)"
    by code_simp
  have b3: "ensureExtracted conflict_project conflict_without_E = (Inr ?L2, conflict_without_E)"
    by code_simp
  have b4: "cache_errors conflict_without_E (specifiers conflict_project) = []"
    by code_simp
  have b5: "duplicate_errors (options conflict_project) (index_entries_of ?L2) =
          [IndexingError ''Duplicate stories with id: a--one''
             [''./A.stories.js'', ''./B.stories.js''],
           IndexingError ''Duplicate stories with id: a--one''
             [''./A.stories.js'', ''./C.stories.js'']]"
    by code_simp
  from getIndex_aggregates_errors [OF a1 a2 a0] obtain l g' where
    e: "ensureExtracted conflict_project conflict_initialized = (Inr l, g')" and
    c: "\<forall>s p err. s \<in> set (specifiers conflict_project)
            \<and> slot_get g' s p = Some (ErrorEntry err) \<longrightarrow>
            err \<in> set (cache_errors g' (specifiers conflict_project))
            \<and> getIndex conflict_project conflict_initialized =
                (Inl (MultipleIndexingError (cache_errors g' (specifiers conflict_project))),
                 g'\<lparr>lastError :=
                      Some (MultipleIndexingError
                              (cache_errors g' (specifiers conflict_project)))\<rparr>)"
    by blast
  from e a3 have eq: "g' = conflict_initialized" by simp
  from c a4 a5 have "getIndex conflict_project conflict_initialized =
       (Inl (MultipleIndexingError
               (cache_errors conflict_initialized (specifiers conflict_project))),
        conflict_initialized\<lparr>lastError :=
          Some (MultipleIndexingError
                  (cache_errors conflict_initialized (specifiers conflict_project)))\<rparr>)"
    unfolding eq by blast
  then have a7: "getIndex conflict_project conflict_initialized =
       (Inl (MultipleIndexingError [no_indexer_error]),
        conflict_initialized\<lparr>lastError := Some (MultipleIndexingError [no_indexer_error])\<rparr>)"
    unfolding a6 .
  from getIndex_aggregates_errors [OF b1 b2 b0] obtain l2 g2 where
    e2: "ensureExtracted conflict_project conflict_without_E = (Inr l2, g2)" and
    c2: "cache_errors g2 (specifiers conflict_project) = []
            \<and> duplicate_errors (options conflict_project) (index_entries_of l2) \<noteq> [] \<longrightarrow>
            getIndex conflict_project conflict_without_E =
              (Inl (MultipleIndexingError
                      (duplicate_errors (options conflict_project) (index_entries_of l2))),
               g2\<lparr>lastError :=
                    Some (MultipleIndexingError
                            (duplicate_errors (options conflict_project)
                               (index_entries_of l2)))\<rparr>)"
    by blast
  from e2 b3 have eq2: "l2 = ?L2" "g2 = conflict_without_E" by simp_all
  from c2 b4 have b6: "getIndex conflict_project conflict_without_E =
       (Inl (MultipleIndexingError
          [IndexingError ''Duplicate stories with id: a--one''
             [''./A.stories.js'', ''./B.stories.js''],
           IndexingError ''Duplicate stories with id: a--one''
             [''./A.stories.js'', ''./C.stories.js'']]),
        conflict_without_E\<lparr>lastError := Some (MultipleIndexingError
          [IndexingError ''Duplicate stories with id: a--one''
             [''./A.stories.js'', ''./B.stories.js''],
           IndexingError ''Duplicate stories with id: a--one''
             [''./A.stories.js'', ''./C.stories.js'']])\<rparr>)"
    unfolding eq2 b5 by simp
  from a1 a2 a0 a3 a4 a5 a7 b1 b2 b0 b3 b4 b6 show ?thesis by blast
qed

section \<open>Dependents of a removed docs file\<close>

text \<open>
  Claim C6, at a failing input. In the project, \<open>D.mdx\<close> is indexed, edited
  (\<open>invalidate\<close> with \<open>removed = false\<close>), indexed again and then removed
  (\<open>invalidate\<close> with \<open>removed = true\<close>). The second extraction pushes the path of
  \<open>D.mdx\<close> onto the dependents of \<open>A.stories.js\<close> a second time; the removal deletes
  the slot of \<open>D.mdx\<close> and splices one occurrence out, so the dependents of
  \<open>A.stories.js\<close> still contain the path of the removed file.
\<close>

theorem dependents_survive_removal:
  "slot_get project_indexed 0 ''/w/A.stories.js'' =
     Some (StoriesCacheEntry [story_one ''./A.stories.js''] [''/w/D.mdx''])
   \<and> slot_get project_edited 0 ''/w/A.stories.js'' =
     Some (StoriesCacheEntry [story_one ''./A.stories.js''] [''/w/D.mdx'', ''/w/D.mdx''])
   \<and> invalidate project project_edited 0 ''./D.mdx'' True = (Inr (), project_removed)
   \<and> slot_get project_removed 0 ''/w/D.mdx'' = None
   \<and> slot_get project_removed 0 ''/w/A.stories.js'' =
     Some (StoriesCacheEntry [story_one ''./A.stories.js''] [''/w/D.mdx''])"
  by code_simp

section \<open>Docs files without storyStoreV7\<close>

lemma fold_establish:
  assumes "x \<in> set xs"
    and I: "\<And>y g. I g \<Longrightarrow> I (f y g)"
    and Q: "\<And>y g. Q g \<Longrightarrow> Q (f y g)"
    and est: "\<And>g. I g \<Longrightarrow> Q (f x g)"
    and "I g"
  shows "Q (fold f xs g)"
  using assms(1,5)
proof (induction xs arbitrary: g)
  case Nil
  then show ?case by simp
next
  case (Cons y ys)
  show ?case
  proof (cases "y = x")
    case True
    from Cons.prems(2) have "Q (f x g)" by (rule est)
    then have "Q (fold f ys (f x g))" by (rule fold_invariant) (rule Q)
    with True show ?thesis by simp
  next
    case False
    with Cons.prems(1) have "x \<in> set ys" by simp
    moreover from Cons.prems(2) have "I (f y g)" by (rule I)
    ultimately have "Q (fold f ys (f y g))" by (rule Cons.IH)
    then show ?thesis by simp
  qed
qed

lemma updateSpecifier_invariant:
  assumes "I (snd rg)" and step: "\<And>s p g. I g \<Longrightarrow> I (updatePath env upd ow s p g)"
  shows "I (snd (updateSpecifier env upd ow s rg))"
  using assms(1)
  by (auto simp: updateSpecifier_def split: option.splits sum.splits
      intro: fold_invariant [where I = I] step)

lemma updateExtracted_establish:
  assumes s: "s \<in> set (specifiers env)"
    and I: "\<And>s' p' g. I g \<Longrightarrow> I (updatePath env upd ow s' p' g)"
    and Q: "\<And>s' p' g. Q g \<Longrightarrow> Q (updatePath env upd ow s' p' g)"
    and est: "\<And>g. I g \<Longrightarrow> Q (updatePath env upd ow s p g)"
    and key: "\<And>g. I g \<Longrightarrow> \<exists>c. map_of (specifierToCache g) s = Some c \<and> p \<in> set (map fst c)"
    and "I g"
  shows "Q (snd (updateExtracted env upd ow g))"
proof -
  let ?F = "updateSpecifier env upd ow"
  have est': "Q (snd (?F s rg))" if "I (snd rg)" for rg
  proof -
    from key [OF that] obtain c where c: "map_of (specifierToCache (snd rg)) s = Some c"
      "p \<in> set (map fst c)" by blast
    have "Q (fold (updatePath env upd ow s) (map fst c) (snd rg))"
      by (rule fold_establish [where I = I and Q = Q and x = p])
        (use c(2) that in \<open>simp_all add: I Q est\<close>)
    with c(1) show ?thesis by (simp add: updateSpecifier_def)
  qed
  have "(\<lambda>rg. Q (snd rg)) (fold ?F (specifiers env) (Inr (), g))"
  proof (rule fold_establish [where I = "\<lambda>rg. I (snd rg)" and x = s])
    show "s \<in> set (specifiers env)" by (rule s)
    show "I (snd (?F y rg))" if "I (snd rg)" for y rg
      using that by (rule updateSpecifier_invariant) (rule I)
    show "Q (snd (?F y rg))" if "Q (snd rg)" for y rg
      using that by (rule updateSpecifier_invariant) (rule Q)
    show "Q (snd (?F s rg))" if "I (snd rg)" for rg
      using that by (rule est')
    show "I (snd (Inr (), g))" using assms(6) by simp
  qed
  then show ?thesis by (simp add: updateExtracted_def)
qed

lemma map_of_dict_set:
  "map_of (dict_set c p e) p' = (if p' = p then Some e else map_of c p')"
  by (induction c p e rule: dict_set.induct) auto

lemma map_of_update_cache:
  "map_of (map (\<lambda>sc. if fst sc = s then (fst sc, f (snd sc)) else sc) cs) s'
     = (if s' = s then map_option f (map_of cs s) else map_of cs s')"
  by (induction cs) auto

lemma slot_get_slot_set:
  "slot_get (slot_set g s p e) s' p' =
     (if s' = s \<and> p' = p \<and> map_of (specifierToCache g) s \<noteq> None then Some e
      else slot_get g s' p')"
proof -
  have "map_of (specifierToCache (slot_set g s p e)) s'
      = (if s' = s then map_option (\<lambda>c. dict_set c p e) (map_of (specifierToCache g) s)
         else map_of (specifierToCache g) s')"
    using map_of_update_cache [where f = "\<lambda>c. dict_set c p e" and s = s and s' = s'
        and cs = "specifierToCache g"]
    by (simp add: slot_set_def)
  then show ?thesis
    by (auto simp: slot_get_def map_of_dict_set split: option.splits)
qed

lemma slot_get_extractor_calls [simp]:
  "slot_get (g\<lparr>extractor_calls := cs\<rparr>) s p = slot_get g s p"
  by (simp add: slot_get_def)

lemma slot_get_cache:
  assumes "slot_get g s p = Some e"
  shows "\<exists>c. map_of (specifierToCache g) s = Some c \<and> p \<in> set (map fst c)"
proof -
  from assms obtain c where c: "map_of (specifierToCache g) s = Some c" "map_of c p = Some e"
    by (auto simp: slot_get_def split: option.splits)
  from c(2) have "(p, e) \<in> set c" by (rule map_of_SomeD)
  then have "p \<in> set (map fst c)" by force
  with c(1) show ?thesis by blast
qed

lemma slot_get_has_cache:
  assumes "slot_get g s p = Some e"
  shows "map_of (specifierToCache g) s \<noteq> None"
  using assms by (auto simp: slot_get_def split: option.splits)

lemma slot_get_extractStories:
  "slot_get (snd (extractStories env s' p' g)) s p = slot_get g s p"
  by (simp add: extractStories_def Let_def split: option.splits sum.splits)

lemma stories_sweep_keeps_docs:
  assumes "isDocsMdx p" and "slot_get g s p = Some Unprocessed"
  shows "slot_get (updatePath env (stories_updater env) False s' p' g) s p = Some Unprocessed"
proof (cases "s' = s \<and> p' = p")
  case True
  from assms(2) have "map_of (specifierToCache g) s \<noteq> None" by (rule slot_get_has_cache)
  with True assms show ?thesis
    by (simp add: updatePath_def stories_updater_def slot_get_slot_set)
next
  case False
  obtain r g1 where u: "stories_updater env s' p' g = (r, g1)"
    by (cases "stories_updater env s' p' g")
  have "slot_get g1 s p = slot_get g s p"
    using u slot_get_extractStories [of env s' p' g s p]
    by (auto simp: stories_updater_def split: if_splits)
  with False u assms(2) show ?thesis
    by (auto simp: updatePath_def Let_def slot_get_slot_set split: sum.splits)
qed

lemma extractDocs_v6:
  assumes "\<not> storyStoreV7 (options env)"
  shows "extractDocs env s absolutePath g = (Inl (Error storyStoreV7_message), g)"
  using assms by (simp add: extractDocs_def)

lemma updatePath_docs_v6:
  assumes "\<not> storyStoreV7 (options env)"
  shows "updatePath env (extractDocs env) False s p g =
     (if truthy_entry (slot_get g s p) then g
      else slot_set g s p (ErrorEntry (IndexingError storyStoreV7_message
             [''.'' @ path_sep env @ path_relative env p])))"
  by (simp add: updatePath_def extractDocs_v6 [OF assms])

lemma ensureExtracted_sweeps:
  assumes "ensureExtracted env g = (Inr l, g')"
  shows "g' = snd (updateExtracted env (extractDocs env) False
                (snd (updateExtracted env (stories_updater env) False g)))"
  using assms by (auto simp: ensureExtracted_def split: prod.splits sum.splits)

lemma docs_become_errors:
  assumes v6: "\<not> storyStoreV7 (options env)"
    and s: "s \<in> set (specifiers env)"
    and mdx: "isDocsMdx p"
    and un: "slot_get g s p = Some Unprocessed"
    and ens: "ensureExtracted env g = (Inr l, g')"
  shows "slot_get g' s p = Some (ErrorEntry (IndexingError storyStoreV7_message
           [''.'' @ path_sep env @ path_relative env p]))"
proof -
  let ?err = "ErrorEntry (IndexingError storyStoreV7_message
           [''.'' @ path_sep env @ path_relative env p])"
  let ?g1 = "snd (updateExtracted env (stories_updater env) False g)"
  let ?I = "\<lambda>h. slot_get h s p = Some Unprocessed \<or> slot_get h s p = Some ?err"
  let ?Q = "\<lambda>h. slot_get h s p = Some ?err"
  have 1: "slot_get ?g1 s p = Some Unprocessed"
    by (rule updateExtracted_invariant [where I = "\<lambda>h. slot_get h s p = Some Unprocessed"])
      (simp_all add: stories_sweep_keeps_docs [OF mdx] un)
  have "?Q (snd (updateExtracted env (extractDocs env) False ?g1))"
  proof (rule updateExtracted_establish [where I = ?I and Q = ?Q and s = s and p = p])
    show "s \<in> set (specifiers env)" by (rule s)
    show "?I (updatePath env (extractDocs env) False s' p' h)" if "?I h" for s' p' h
    proof -
      from that have "map_of (specifierToCache h) s \<noteq> None"
        by (auto dest: slot_get_has_cache)
      with that show ?thesis
        by (auto simp: updatePath_docs_v6 [OF v6] slot_get_slot_set)
    qed
    show "?Q (updatePath env (extractDocs env) False s' p' h)" if "?Q h" for s' p' h
      using that
      by (auto simp: updatePath_docs_v6 [OF v6] slot_get_slot_set)
    show "?Q (updatePath env (extractDocs env) False s p h)" if "?I h" for h
    proof -
      from that have "map_of (specifierToCache h) s \<noteq> None"
        by (auto dest: slot_get_has_cache)
      with that show ?thesis
        by (auto simp: updatePath_docs_v6 [OF v6] slot_get_slot_set)
    qed
    show "\<exists>c. map_of (specifierToCache h) s = Some c \<and> p \<in> set (map fst c)" if "?I h" for h
      using that by (auto dest: slot_get_cache)
    show "?I ?g1" using 1 by simp
  qed
  with ensureExtracted_sweeps [OF ens] show ?thesis by simp
qed

text \<open>
  Claim C10. With \<open>storyStoreV7\<close> switched off, \<open>extractDocs\<close> throws for every path
  and leaves the generator as it is: the file is not read (no call is recorded), and the
  result is the same whatever reading and analyzing the file would give. Consequently,
  when every specifier has its cache, \<open>ensureExtracted\<close> leaves an \<open>ErrorEntry\<close> with
  that message and the relative path of the file at every docs path (\<open>.mdx\<close> but not
  \<open>.stories.mdx\<close>) of a specifier that was unprocessed.
\<close>

theorem extractDocs_needs_storyStoreV7:
  assumes "\<not> storyStoreV7 (options env)"
  shows "extractDocs env s absolutePath g = (Inl (Error storyStoreV7_message), g)
       \<and> (\<forall>ra. extractDocs (env\<lparr>readAndAnalyze := ra\<rparr>) s absolutePath g
                 = (Inl (Error storyStoreV7_message), g))
       \<and> (\<forall>s' p. s' \<in> set (specifiers env) \<and> isDocsMdx p
              \<and> slot_get g s' p = Some Unprocessed
              \<and> set (specifiers env) \<subseteq> set (cache_keys g) \<longrightarrow>
            slot_get (snd (ensureExtracted env g)) s' p =
              Some (ErrorEntry (IndexingError storyStoreV7_message
                      [''.'' @ path_sep env @ path_relative env p])))"
proof (intro conjI allI impI)
  show "extractDocs env s absolutePath g = (Inl (Error storyStoreV7_message), g)"
    using assms by (rule extractDocs_v6)
next
  fix ra
  have "\<not> storyStoreV7 (options (env\<lparr>readAndAnalyze := ra\<rparr>))" using assms by simp
  then show "extractDocs (env\<lparr>readAndAnalyze := ra\<rparr>) s absolutePath g
                 = (Inl (Error storyStoreV7_message), g)"
    by (rule extractDocs_v6)
next
  fix s' p
  assume a: "s' \<in> set (specifiers env) \<and> isDocsMdx p
              \<and> slot_get g s' p = Some Unprocessed
              \<and> set (specifiers env) \<subseteq> set (cache_keys g)"
  then have h: "s' \<in> set (specifiers env)" "isDocsMdx p" "slot_get g s' p = Some Unprocessed"
    "set (specifiers env) \<subseteq> set (cache_keys g)"
    by simp_all
  from ensureExtracted_settles [OF h(4)] obtain l g' where
    e: "ensureExtracted env g = (Inr l, g')" by blast
  from docs_become_errors [OF assms h(1-3) e] e
  show "slot_get (snd (ensureExtracted env g)) s' p =
              Some (ErrorEntry (IndexingError storyStoreV7_message
                      [''.'' @ path_sep env @ path_relative env p]))"
    by simp
qed

theorem extractDocs_needs_storyStoreV7_witness:
  "\<not> storyStoreV7 (options v6_project)
   \<and> extractDocs v6_project 0 ''/w/D.mdx'' project_unprocessed
       = (Inl (Error storyStoreV7_message), project_unprocessed)
   \<and> 0 \<in> set (specifiers v6_project) \<and> isDocsMdx ''/w/D.mdx''
   \<and> slot_get project_unprocessed 0 ''/w/D.mdx'' = Some Unprocessed
   \<and> set (specifiers v6_project) \<subseteq> set (cache_keys project_unprocessed)
   \<and> fst (ensureExtracted v6_project project_unprocessed) =
       Inr [Inr (story_one ''./A.stories.js''),
            Inl (IndexingError storyStoreV7_message [''./D.mdx''])]
   \<and> slot_get (snd (ensureExtracted v6_project project_unprocessed)) 0 ''/w/D.mdx''
       = Some (ErrorEntry (IndexingError storyStoreV7_message [''./D.mdx'']))"
proof -
  have v: "\<not> storyStoreV7 (options v6_project)"
    by (simp add: v6_project_def)
  have s: "0 \<in> set (specifiers v6_project)"
    by (simp add: v6_project_def project_def)
  have m: "isDocsMdx ''/w/D.mdx''" by code_simp
  have u: "slot_get project_unprocessed 0 ''/w/D.mdx'' = Some Unprocessed" by code_simp
  have k: "set (specifiers v6_project) \<subseteq> set (cache_keys project_unprocessed)"
    by code_simp
  have e: "fst (ensureExtracted v6_project project_unprocessed) =
       Inr [Inr (story_one ''./A.stories.js''),
            Inl (IndexingError storyStoreV7_message [''./D.mdx''])]"
    by code_simp
  have r: "''.'' @ path_sep v6_project @ path_relative v6_project ''/w/D.mdx'' = ''./D.mdx''"
    by (simp add: v6_project_def project_def)
  note T = extractDocs_needs_storyStoreV7 [OF v, of 0 "''/w/D.mdx''" project_unprocessed]
  from T have x: "extractDocs v6_project 0 ''/w/D.mdx'' project_unprocessed
       = (Inl (Error storyStoreV7_message), project_unprocessed)"
    by blast
  from T s m u k
  have "slot_get (snd (ensureExtracted v6_project project_unprocessed)) 0 ''/w/D.mdx''
       = Some (ErrorEntry (IndexingError storyStoreV7_message
           [''.'' @ path_sep v6_project @ path_relative v6_project ''/w/D.mdx'']))"
    by blast
  then have y: "slot_get (snd (ensureExtracted v6_project project_unprocessed)) 0 ''/w/D.mdx''
       = Some (ErrorEntry (IndexingError storyStoreV7_message [''./D.mdx'']))"
    unfolding r .
  from v x s m u k e y show ?thesis by blast
qed

end
